theory Spec2Isabelle
  imports Main "HOL-Library.Sublist" "HOL-Library.Word"
begin

section \<open>JavaScript strings and values\<close>

text \<open>
  Strings are modelled as \<^typ>\<open>string\<close>; an optional field of a request or of the process
  environment (a value that may be \<open>undefined\<close>) is a \<^typ>\<open>string option\<close>.
  A thrown JavaScript exception is a value of \<open>js_error\<close>; every function of the source that
  may throw returns a sum whose left summand is the exception.
\<close>

datatype js_error = Error string | TypeError string

text \<open>\<open>error.message\<close> and \<open>String(error)\<close> (the text a template literal inserts).\<close>

fun error_message :: "js_error \<Rightarrow> string" where
  "error_message (Error m) = m"
| "error_message (TypeError m) = m"

fun error_toString :: "js_error \<Rightarrow> string" where
  "error_toString (Error m) = ''Error: '' @ m"
| "error_toString (TypeError m) = ''TypeError: '' @ m"

text \<open>Truthiness of an optional string: \<open>undefined\<close> and the empty string are falsy.\<close>

definition truthy :: "string option \<Rightarrow> bool" where
  "truthy v = (case v of None \<Rightarrow> False | Some s \<Rightarrow> s \<noteq> [])"

text \<open>\<open>v || d\<close> for an optional string \<open>v\<close> and a string \<open>d\<close>.\<close>

definition or_else :: "string option \<Rightarrow> string \<Rightarrow> string" where
  "or_else v d = (case v of None \<Rightarrow> d | Some s \<Rightarrow> if s = [] then d else s)"

text \<open>\<open>s.startsWith(p)\<close>.\<close>

definition startsWith :: "string \<Rightarrow> string \<Rightarrow> bool" where
  "startsWith s p = (take (length p) s = p)"

text \<open>\<open>`${v}`\<close> for an optional string.\<close>

definition template_of :: "string option \<Rightarrow> string" where
  "template_of v = (case v of None \<Rightarrow> ''undefined'' | Some s \<Rightarrow> s)"

text \<open>\<open>s.toLowerCase()\<close> on ASCII letters.\<close>

definition lower_char :: "char \<Rightarrow> char" where
  "lower_char c =
     (let n = (of_char c :: nat) in if 65 \<le> n \<and> n \<le> 90 then char_of (n + 32) else c)"

definition toLowerCase :: "string \<Rightarrow> string" where
  "toLowerCase s = map lower_char s"

definition quoted :: "string \<Rightarrow> string" where
  "quoted s = CHR 0x27 # s @ [CHR 0x27]"

text \<open>\<open>buffer.toString('hex')\<close>: two lower-case hexadecimal digits per byte.\<close>

definition hex_digit :: "nat \<Rightarrow> char" where
  "hex_digit n = ''0123456789abcdef'' ! n"

definition hex_of_byte :: "8 word \<Rightarrow> string" where
  "hex_of_byte b = [hex_digit (unat b div 16), hex_digit (unat b mod 16)]"

definition toString_hex :: "8 word list \<Rightarrow> string" where
  "toString_hex bs = concat (map hex_of_byte bs)"

text \<open>Decimal rendering of a non-negative number (\<open>`${Date.now()}`\<close>).\<close>

fun decimal :: "nat \<Rightarrow> string" where
  "decimal n =
     (if n < 10 then [char_of (48 + n)] else decimal (n div 10) @ [char_of (48 + n mod 10)])"

declare decimal.simps [simp del]


section \<open>Node's \<open>path\<close> module\<close>

text \<open>
  A path string is cut at its separators, the segments are normalised
  (\<open>normalizeString\<close> of Node's \<open>lib/path.js\<close>: empty and \<open>.\<close> segments vanish, \<open>..\<close> removes
  the segment before it) and glued again.
\<close>

fun split_on :: "(char \<Rightarrow> bool) \<Rightarrow> string \<Rightarrow> string list" where
  "split_on P [] = [[]]"
| "split_on P (c # cs) =
     (if P c then [] # split_on P cs
      else (case split_on P cs of [] \<Rightarrow> [[c]] | s # ss \<Rightarrow> (c # s) # ss))"

fun intercalate :: "string \<Rightarrow> string list \<Rightarrow> string" where
  "intercalate sep [] = []"
| "intercalate sep [x] = x"
| "intercalate sep (x # y # ys) = x @ sep @ intercalate sep (y # ys)"

definition norm_step :: "bool \<Rightarrow> string list \<Rightarrow> string \<Rightarrow> string list" where
  "norm_step allowAboveRoot res seg =
     (if seg = [] \<or> seg = ''.'' then res
      else if seg = ''..'' then
        (if res \<noteq> [] \<and> last res \<noteq> ''..'' then butlast res
         else if allowAboveRoot then res @ [''..''] else res)
      else res @ [seg])"

definition normalizeString :: "bool \<Rightarrow> string list \<Rightarrow> string list" where
  "normalizeString allowAboveRoot segs = foldl (norm_step allowAboveRoot) [] segs"

subsection \<open>\<open>path.posix\<close>\<close>

definition is_slash :: "char \<Rightarrow> bool" where
  "is_slash c = (c = CHR ''/'')"

definition posix_isAbsolute :: "string \<Rightarrow> bool" where
  "posix_isAbsolute p = (p \<noteq> [] \<and> is_slash (hd p))"

definition posix_normalize :: "string \<Rightarrow> string" where
  "posix_normalize p =
     (if p = [] then ''.''
      else
        let isAbsolute = is_slash (hd p);
            trailingSeparator = is_slash (last p);
            body = intercalate ''/'' (normalizeString (\<not> isAbsolute) (split_on is_slash p))
        in if body = [] then (if isAbsolute then ''/'' else if trailingSeparator then ''./'' else ''.'')
           else (if isAbsolute then ''/'' else []) @ body @ (if trailingSeparator then ''/'' else []))"

definition posix_join :: "string list \<Rightarrow> string" where
  "posix_join args =
     (let parts = filter (\<lambda>a. a \<noteq> []) args
      in if parts = [] then ''.'' else posix_normalize (intercalate ''/'' parts))"

text \<open>\<open>path.basename(p)\<close>: the last component, trailing slashes ignored.\<close>

definition posix_basename :: "string \<Rightarrow> string" where
  "posix_basename p = rev (takeWhile (\<lambda>c. \<not> is_slash c) (dropWhile is_slash (rev p)))"

text \<open>
  \<open>path.extname(p)\<close>: from the last dot of the last component to its end; empty when the
  component has no dot, when its last dot is its first character, and for \<open>..\<close>.
\<close>

definition posix_extname :: "string \<Rightarrow> string" where
  "posix_extname p =
     (let b = posix_basename p;
          after = rev (takeWhile (\<lambda>c. c \<noteq> CHR ''.'') (rev b));
          before = take (length b - length after - 1) b
      in if CHR ''.'' \<notin> set b \<or> before = [] \<or> b = ''..'' then [] else CHR ''.'' # after)"

text \<open>
  \<open>path.basename(p, ext)\<close>: the last component without the suffix \<open>ext\<close>. A component that is
  the suffix itself is kept whole. (A suffix longer than the last component of a path with
  several components is not met by the callers here, which pass a single component.)
\<close>

definition posix_basename_ext :: "string \<Rightarrow> string \<Rightarrow> string" where
  "posix_basename_ext p ext =
     (let b = posix_basename p
      in if ext \<noteq> [] \<and> length ext \<le> length p then
           (if ext = p then []
            else if suffix ext b \<and> ext \<noteq> b then take (length b - length ext) b else b)
         else b)"

subsection \<open>\<open>path.win32\<close>\<close>

text \<open>
  Both the slash and the backslash separate; the result uses the backslash. A path may start with a drive
  (\<open>C:\<close>). Paths that start with two separators (UNC roots) are outside this model.
\<close>

definition backslash :: char where
  "backslash = CHR 0x5C"

definition is_win32_sep :: "char \<Rightarrow> bool" where
  "is_win32_sep c = (c = CHR ''/'' \<or> c = backslash)"

definition isWindowsDeviceRoot :: "char \<Rightarrow> bool" where
  "isWindowsDeviceRoot c =
     (let n = (of_char c :: nat) in (65 \<le> n \<and> n \<le> 90) \<or> (97 \<le> n \<and> n \<le> 122))"

definition win32_device :: "string \<Rightarrow> string" where
  "win32_device p =
     (case p of c # d # _ \<Rightarrow> if isWindowsDeviceRoot c \<and> d = CHR '':'' then [c, d] else []
      | _ \<Rightarrow> [])"

definition win32_isAbsolute :: "string \<Rightarrow> bool" where
  "win32_isAbsolute p =
     (let rest = drop (length (win32_device p)) p in rest \<noteq> [] \<and> is_win32_sep (hd rest))"

definition win32_normalize :: "string \<Rightarrow> string" where
  "win32_normalize p =
     (if p = [] then ''.''
      else
        let device = win32_device p;
            rest = drop (length device) p;
            isAbsolute = (rest \<noteq> [] \<and> is_win32_sep (hd rest));
            tail0 = intercalate [backslash]
                      (normalizeString (\<not> isAbsolute) (split_on is_win32_sep rest));
            tail1 = (if tail0 = [] \<and> \<not> isAbsolute then ''.'' else tail0);
            tail2 = (if tail1 \<noteq> [] \<and> is_win32_sep (last p) then tail1 @ [backslash] else tail1)
        in device @ (if isAbsolute then [backslash] else []) @ tail2)"

definition win32_join :: "string list \<Rightarrow> string" where
  "win32_join args =
     (let parts = filter (\<lambda>a. a \<noteq> []) args
      in if parts = [] then ''.'' else win32_normalize (intercalate [backslash] parts))"

text \<open>\<open>path.join\<close> and \<open>path.sep\<close> of the running platform (\<open>os.platform()\<close>).\<close>

definition path_join :: "string \<Rightarrow> string list \<Rightarrow> string" where
  "path_join platform args = (if platform = ''win32'' then win32_join args else posix_join args)"

definition path_sep :: "string \<Rightarrow> char" where
  "path_sep platform = (if platform = ''win32'' then backslash else CHR ''/'')"

definition path_isAbsolute :: "string \<Rightarrow> string \<Rightarrow> bool" where
  "path_isAbsolute platform p =
     (if platform = ''win32'' then win32_isAbsolute p else posix_isAbsolute p)"


section \<open>The file system\<close>

text \<open>
  The part of Node's \<open>fs\<close> module that the file handler calls, over an explicit file-system
  state. A node is stored under the list of path components that leads to it from the root;
  the association list keeps the order in which a directory lists its entries. A path string
  is resolved lexically (relative paths from the working directory, \<open>..\<close> stepping to the
  parent, the parent of the root being the root), which is what the operating system does
  when the directories written before a \<open>..\<close> exist and are not symbolic links.
  A \<open>BrokenLink\<close> is a symbolic link whose target is missing: the directory lists it, it can be
  unlinked, but \<open>stat\<close> and \<open>exists\<close>, which follow links, do not find it. The flag \<open>locked\<close>
  stands for any reason the operating system has to refuse an unlink (permissions, a file in
  use). The root directory is the empty key: as a parent it always is a directory, and it is
  an entry of its own only when the list stores it. Paths are POSIX paths.
\<close>

datatype kind = RegularFile | Directory | BrokenLink

record node =
  kind :: kind
  mtimeMs :: int
  content :: "8 word list"
  readable :: bool
  locked :: bool

type_synonym key = "string list"

record filesystem =
  cwd :: key
  nodes :: "(key \<times> node) list"

definition resolve :: "filesystem \<Rightarrow> string \<Rightarrow> key" where
  "resolve fs p =
     normalizeString False ((if posix_isAbsolute p then [] else cwd fs) @ split_on is_slash p)"

definition lookup :: "filesystem \<Rightarrow> string \<Rightarrow> node option" where
  "lookup fs p = map_of (nodes fs) (resolve fs p)"

definition is_dir :: "filesystem \<Rightarrow> key \<Rightarrow> bool" where
  "is_dir fs k =
     (k = [] \<or> (case map_of (nodes fs) k of None \<Rightarrow> False | Some n \<Rightarrow> kind n = Directory))"

definition enoent :: "string \<Rightarrow> string \<Rightarrow> js_error" where
  "enoent syscall p = Error (''ENOENT: no such file or directory, '' @ syscall @ '' '' @ quoted p)"

definition existsSync :: "filesystem \<Rightarrow> string \<Rightarrow> bool" where
  "existsSync fs p = (case lookup fs p of None \<Rightarrow> False | Some n \<Rightarrow> kind n \<noteq> BrokenLink)"

definition statSync :: "filesystem \<Rightarrow> string \<Rightarrow> js_error + node" where
  "statSync fs p =
     (case lookup fs p of
        None \<Rightarrow> Inl (enoent ''stat'' p)
      | Some n \<Rightarrow> if kind n = BrokenLink then Inl (enoent ''stat'' p) else Inr n)"

text \<open>\<open>stats.isFile()\<close> and \<open>stats.size\<close>.\<close>

definition isFile :: "node \<Rightarrow> bool" where
  "isFile n = (kind n = RegularFile)"

definition size_of :: "node \<Rightarrow> nat" where
  "size_of n = length (content n)"

text \<open>\<open>fs.accessSync(p, fs.constants.R_OK)\<close>.\<close>

definition accessSync_R_OK :: "filesystem \<Rightarrow> string \<Rightarrow> js_error + unit" where
  "accessSync_R_OK fs p =
     (case lookup fs p of
        None \<Rightarrow> Inl (enoent ''access'' p)
      | Some n \<Rightarrow>
          if kind n = BrokenLink then Inl (enoent ''access'' p)
          else if readable n then Inr ()
          else Inl (Error (''EACCES: permission denied, access '' @ quoted p)))"

definition unlinkSync :: "filesystem \<Rightarrow> string \<Rightarrow> js_error + filesystem" where
  "unlinkSync fs p =
     (case lookup fs p of
        None \<Rightarrow> Inl (enoent ''unlink'' p)
      | Some n \<Rightarrow>
          if kind n = Directory then
            Inl (Error (''EISDIR: illegal operation on a directory, unlink '' @ quoted p))
          else if locked n then
            Inl (Error (''EPERM: operation not permitted, unlink '' @ quoted p))
          else Inr (fs\<lparr>nodes := filter (\<lambda>e. fst e \<noteq> resolve fs p) (nodes fs)\<rparr>))"

definition readdirSync :: "filesystem \<Rightarrow> string \<Rightarrow> js_error + string list" where
  "readdirSync fs p =
     (let k = resolve fs p;
          listing = map (\<lambda>e. last (fst e))
                      (filter (\<lambda>e. fst e \<noteq> [] \<and> butlast (fst e) = k) (nodes fs))
      in if k = [] then Inr listing
         else
           (case map_of (nodes fs) k of
              None \<Rightarrow> Inl (enoent ''scandir'' p)
            | Some n \<Rightarrow>
                if kind n = Directory then Inr listing
                else if kind n = BrokenLink then Inl (enoent ''scandir'' p)
                else Inl (Error (''ENOTDIR: not a directory, scandir '' @ quoted p))))"

fun update_node :: "key \<Rightarrow> node \<Rightarrow> (key \<times> node) list \<Rightarrow> (key \<times> node) list" where
  "update_node k n [] = [(k, n)]"
| "update_node k n (e # es) = (if fst e = k then (k, n) # es else e # update_node k n es)"

text \<open>\<open>fs.writeFileSync(p, buffer)\<close> at time \<open>now\<close>: creates the file or replaces its content.\<close>

definition writeFileSync :: "filesystem \<Rightarrow> int \<Rightarrow> string \<Rightarrow> 8 word list \<Rightarrow> js_error + filesystem" where
  "writeFileSync fs now p buffer =
     (let k = resolve fs p in
      if k = [] \<or> map_option kind (map_of (nodes fs) k) = Some Directory then
        Inl (Error (''EISDIR: illegal operation on a directory, open '' @ quoted p))
      else if \<not> is_dir fs (butlast k) then Inl (enoent ''open'' p)
      else
        Inr (fs\<lparr>nodes :=
               update_node k
                 \<lparr>kind = RegularFile, mtimeMs = now, content = buffer, readable = True,
                  locked = False\<rparr>
                 (nodes fs)\<rparr>))"


section \<open>The file handler (\<open>file-handler.ts\<close>)\<close>

text \<open>
  What a call of the handler reads from outside the file system: the temporary directory
  fixed by the constructor, the network (\<open>fetch\<close>), the URL parser (\<open>new URL(url).pathname\<close>,
  \<open>None\<close> when the constructor throws), the bytes \<open>crypto.randomBytes(n)\<close> returns during the
  call, the clock and the base64 decoder of \<open>Buffer.from\<close>. The fields of a request are
  strings or absent. \<open>path.join\<close>, \<open>path.basename\<close> and \<open>path.extname\<close> are those of a POSIX
  host.
\<close>

record http_response =
  ok :: bool
  statusText :: string
  buffer :: "js_error + 8 word list"

record host =
  tempDir :: string
  fetch :: "string \<Rightarrow> js_error + http_response"
  url_pathname :: "string \<Rightarrow> string option"
  randomBytes :: "nat \<Rightarrow> 8 word list"
  date_now :: int
  base64_decode :: "string \<Rightarrow> 8 word list"

record request =
  action :: "string option"
  fileUrl :: "string option"
  base64Data :: "string option"
  fileName :: "string option"
  filePath :: "string option"

text \<open>
  The value a request resolves to: \<open>{success: true, filePath, fileName, size}\<close>,
  \<open>{success: true, message}\<close>, \<open>{success: false, error}\<close>, or \<open>undefined\<close>.
\<close>

datatype response =
    Staged string string nat
  | Cleaned string
  | Failed string
  | Undefined

fun success :: "response \<Rightarrow> bool option" where
  "success (Staged p n s) = Some True"
| "success (Cleaned m) = Some True"
| "success (Failed e) = Some False"
| "success Undefined = None"

definition generateFileName :: "host \<Rightarrow> string option \<Rightarrow> string" where
  "generateFileName h url =
     (let random_name = ''upload-'' @ toString_hex (randomBytes h 8) @ ''.bin'' in
      case url of
        None \<Rightarrow> random_name
      | Some u \<Rightarrow>
          if u = [] then random_name
          else
            (case url_pathname h u of
               None \<Rightarrow> random_name
             | Some pathname \<Rightarrow>
                 let basename = posix_basename pathname in
                 if basename \<noteq> [] \<and> basename \<noteq> ''/'' then
                   let ext = posix_extname basename;
                       name = posix_basename_ext basename ext;
                       randomSuffix = toString_hex (randomBytes h 4)
                   in name @ ''-'' @ randomSuffix @ ext
                 else random_name))"

definition downloadFile ::
  "host \<Rightarrow> filesystem \<Rightarrow> string \<Rightarrow> string option \<Rightarrow> (js_error + response) \<times> filesystem" where
  "downloadFile h fs url name =
     (let rethrow = (\<lambda>e. (Inl (Error (''Failed to download file from URL: '' @ error_toString e)), fs)) in
      case fetch h url of
        Inl e \<Rightarrow> rethrow e
      | Inr resp \<Rightarrow>
          if \<not> ok resp then rethrow (Error (''Failed to download file: '' @ statusText resp))
          else
            let finalFileName = (if truthy name then template_of name else generateFileName h (Some url));
                path = posix_join [tempDir h, finalFileName]
            in (case buffer resp of
                  Inl e \<Rightarrow> rethrow e
                | Inr buf \<Rightarrow>
                    (case writeFileSync fs (date_now h) path buf of
                       Inl e \<Rightarrow> rethrow e
                     | Inr fs' \<Rightarrow> (Inr (Staged path finalFileName (length buf)), fs'))))"

text \<open>
  \<open>base64Data.replace(/^data:.*?;base64,/, '')\<close>: a leading \<open>data:\<close> up to the first
  \<open>;base64,\<close> on the same line is removed.
\<close>

fun drop_through :: "string \<Rightarrow> string \<Rightarrow> string option" where
  "drop_through pat [] = (if pat = [] then Some [] else None)"
| "drop_through pat (c # cs) =
     (if take (length pat) (c # cs) = pat then Some (drop (length pat) (c # cs))
      else if c = CHR 0x0A \<or> c = CHR 0x0D then None
      else drop_through pat cs)"

definition strip_data_url_prefix :: "string \<Rightarrow> string" where
  "strip_data_url_prefix s =
     (if startsWith s ''data:'' then
        (case drop_through '';base64,'' (drop 5 s) of None \<Rightarrow> s | Some rest \<Rightarrow> rest)
      else s)"

definition saveBase64File ::
  "host \<Rightarrow> filesystem \<Rightarrow> string \<Rightarrow> string option \<Rightarrow> (js_error + response) \<times> filesystem" where
  "saveBase64File h fs data name =
     (let base64Content = strip_data_url_prefix data;
          buf = base64_decode h base64Content;
          finalFileName =
            (if truthy name then template_of name
             else ''upload-'' @ decimal (nat (date_now h)) @ ''.bin'');
          path = posix_join [tempDir h, finalFileName]
      in case writeFileSync fs (date_now h) path buf of
           Inl e \<Rightarrow> (Inl (Error (''Failed to save base64 file: '' @ error_toString e)), fs)
         | Inr fs' \<Rightarrow> (Inr (Staged path finalFileName (length buf)), fs'))"

definition verifyFile :: "filesystem \<Rightarrow> string \<Rightarrow> js_error + response" where
  "verifyFile fs path =
     (let rethrow = (\<lambda>e. Inl (Error (''Failed to verify file: '' @ error_toString e))) in
      if \<not> existsSync fs path then rethrow (Error (''File does not exist: '' @ path))
      else
        (case statSync fs path of
           Inl e \<Rightarrow> rethrow e
         | Inr stats \<Rightarrow>
             if \<not> isFile stats then rethrow (Error (''Path is not a file: '' @ path))
             else
               (case accessSync_R_OK fs path of
                  Inl e \<Rightarrow> rethrow e
                | Inr _ \<Rightarrow> Inr (Staged path (posix_basename path) (size_of stats)))))"

definition cleanupFile :: "host \<Rightarrow> filesystem \<Rightarrow> string option \<Rightarrow> response \<times> filesystem" where
  "cleanupFile h fs path =
     (case path of
        None \<Rightarrow>
          (Failed (''Failed to cleanup file: '' @ error_toString
             (TypeError (''Cannot read properties of undefined (reading ''
                @ quoted ''startsWith'' @ '')''))), fs)
      | Some p \<Rightarrow>
          if \<not> startsWith p (tempDir h) then
            (Failed ''Can only cleanup files in temp directory'', fs)
          else if existsSync fs p then
            (case unlinkSync fs p of
               Inl e \<Rightarrow> (Failed (''Failed to cleanup file: '' @ error_toString e), fs)
             | Inr fs' \<Rightarrow> (Cleaned ''File cleaned up successfully'', fs'))
          else (Cleaned ''File cleaned up successfully'', fs))"

text \<open>The \<open>catch\<close> of \<open>handleFileRequest\<close>: a thrown error becomes a failure response.\<close>

definition caught :: "(js_error + response) \<times> filesystem \<Rightarrow> response \<times> filesystem" where
  "caught r = (case fst r of Inl e \<Rightarrow> (Failed (error_message e), snd r) | Inr v \<Rightarrow> (v, snd r))"

definition handleFileRequest :: "host \<Rightarrow> filesystem \<Rightarrow> request \<Rightarrow> response \<times> filesystem" where
  "handleFileRequest h fs req =
     (if action req = Some ''prepareFile'' then
        (if truthy (fileUrl req) then
           caught (downloadFile h fs (template_of (fileUrl req)) (fileName req))
         else if truthy (base64Data req) then
           caught (saveBase64File h fs (template_of (base64Data req)) (fileName req))
         else if truthy (filePath req) then
           caught (verifyFile fs (template_of (filePath req)), fs)
         else (Undefined, fs))
      else if action req = Some ''cleanupFile'' then cleanupFile h fs (filePath req)
      else (Failed (''Unknown file action: '' @ template_of (action req)), fs))"

text \<open>
  \<open>cleanupOldFiles\<close>: one \<open>try\<close> around the whole loop, so the first \<open>statSync\<close> or
  \<open>unlinkSync\<close> that throws ends the loop in the \<open>catch\<close>. The result is the file system
  left behind and the lines written to the console.
\<close>

datatype console = Log string | ConsoleError string js_error

definition oneHour :: int where
  "oneHour = 60 * 60 * 1000"

fun cleanup_loop ::
  "string \<Rightarrow> int \<Rightarrow> string list \<Rightarrow> filesystem \<Rightarrow> console list \<Rightarrow> filesystem \<times> console list" where
  "cleanup_loop dir now [] fs out = (fs, out)"
| "cleanup_loop dir now (file # files) fs out =
     (let path = posix_join [dir, file] in
      case statSync fs path of
        Inl e \<Rightarrow> (fs, out @ [ConsoleError ''Error cleaning up old files:'' e])
      | Inr stats \<Rightarrow>
          if now - mtimeMs stats > oneHour then
            (case unlinkSync fs path of
               Inl e \<Rightarrow> (fs, out @ [ConsoleError ''Error cleaning up old files:'' e])
             | Inr fs' \<Rightarrow>
                 cleanup_loop dir now files fs' (out @ [Log (''Cleaned up old temp file: '' @ file)]))
          else cleanup_loop dir now files fs out)"

definition cleanupOldFiles :: "host \<Rightarrow> filesystem \<Rightarrow> filesystem \<times> console list" where
  "cleanupOldFiles h fs =
     (case readdirSync fs (tempDir h) of
        Inl e \<Rightarrow> (fs, [ConsoleError ''Error cleaning up old files:'' e])
      | Inr files \<Rightarrow> cleanup_loop (tempDir h) (date_now h) files fs [])"


section \<open>Manifest paths (\<open>browser-config.ts\<close>)\<close>

text \<open>
  Every function reads the platform, the home directory and two environment variables. The
  host name \<open>HOST_NAME\<close> is a constant of another module and is a parameter here. A browser
  is the string value of the \<open>BrowserType\<close> enumeration (\<open>chrome\<close>, \<open>chromium\<close>); at run time
  any other string can arrive and takes the \<open>default\<close> branch.
\<close>

record os_env =
  platform :: string
  homedir :: string
  APPDATA :: "string option"
  ProgramFiles :: "string option"

definition getUserManifestPathForBrowser :: "string \<Rightarrow> os_env \<Rightarrow> string \<Rightarrow> string" where
  "getUserManifestPathForBrowser HOST_NAME env browser =
     (let join = path_join (platform env) in
      if platform env = ''win32'' then
        let appData = or_else (APPDATA env) (join [homedir env, ''AppData'', ''Roaming'']) in
        if browser = ''chrome'' then
          join [appData, ''Google'', ''Chrome'', ''NativeMessagingHosts'', HOST_NAME @ ''.json'']
        else if browser = ''chromium'' then
          join [appData, ''Chromium'', ''NativeMessagingHosts'', HOST_NAME @ ''.json'']
        else
          join [appData, ''Google'', ''Chrome'', ''NativeMessagingHosts'', HOST_NAME @ ''.json'']
      else if platform env = ''darwin'' then
        let home = homedir env in
        if browser = ''chrome'' then
          join [home, ''Library'', ''Application Support'', ''Google'', ''Chrome'',
                ''NativeMessagingHosts'', HOST_NAME @ ''.json'']
        else if browser = ''chromium'' then
          join [home, ''Library'', ''Application Support'', ''Chromium'',
                ''NativeMessagingHosts'', HOST_NAME @ ''.json'']
        else
          join [home, ''Library'', ''Application Support'', ''Google'', ''Chrome'',
                ''NativeMessagingHosts'', HOST_NAME @ ''.json'']
      else
        let home = homedir env in
        if browser = ''chrome'' then
          join [home, ''.config'', ''google-chrome'', ''NativeMessagingHosts'', HOST_NAME @ ''.json'']
        else if browser = ''chromium'' then
          join [home, ''.config'', ''chromium'', ''NativeMessagingHosts'', HOST_NAME @ ''.json'']
        else
          join [home, ''.config'', ''google-chrome'', ''NativeMessagingHosts'', HOST_NAME @ ''.json''])"

definition getSystemManifestPathForBrowser :: "string \<Rightarrow> os_env \<Rightarrow> string \<Rightarrow> string" where
  "getSystemManifestPathForBrowser HOST_NAME env browser =
     (let join = path_join (platform env) in
      if platform env = ''win32'' then
        let programFiles = or_else (ProgramFiles env) (''C:'' @ [backslash] @ ''Program Files'') in
        if browser = ''chrome'' then
          join [programFiles, ''Google'', ''Chrome'', ''NativeMessagingHosts'', HOST_NAME @ ''.json'']
        else if browser = ''chromium'' then
          join [programFiles, ''Chromium'', ''NativeMessagingHosts'', HOST_NAME @ ''.json'']
        else
          join [programFiles, ''Google'', ''Chrome'', ''NativeMessagingHosts'', HOST_NAME @ ''.json'']
      else if platform env = ''darwin'' then
        if browser = ''chrome'' then
          join [''/Library'', ''Google'', ''Chrome'', ''NativeMessagingHosts'', HOST_NAME @ ''.json'']
        else if browser = ''chromium'' then
          join [''/Library'', ''Application Support'', ''Chromium'', ''NativeMessagingHosts'',
                HOST_NAME @ ''.json'']
        else
          join [''/Library'', ''Google'', ''Chrome'', ''NativeMessagingHosts'', HOST_NAME @ ''.json'']
      else
        if browser = ''chrome'' then
          join [''/etc'', ''opt'', ''chrome'', ''native-messaging-hosts'', HOST_NAME @ ''.json'']
        else if browser = ''chromium'' then
          join [''/etc'', ''chromium'', ''native-messaging-hosts'', HOST_NAME @ ''.json'']
        else
          join [''/etc'', ''opt'', ''chrome'', ''native-messaging-hosts'', HOST_NAME @ ''.json''])"

text \<open>The installation tier selects one of the two resolvers.\<close>

datatype tier = UserTier | SystemTier

definition manifest_path :: "string \<Rightarrow> os_env \<Rightarrow> tier \<Rightarrow> string \<Rightarrow> string" where
  "manifest_path HOST_NAME env t browser =
     (case t of
        UserTier \<Rightarrow> getUserManifestPathForBrowser HOST_NAME env browser
      | SystemTier \<Rightarrow> getSystemManifestPathForBrowser HOST_NAME env browser)"

definition browser_types :: "string list" where
  "browser_types = [''chrome'', ''chromium'']"

definition parseBrowserType :: "string \<Rightarrow> string option" where
  "parseBrowserType browserStr = find (\<lambda>type. type = toLowerCase browserStr) browser_types"


section \<open>The \<open>register\<close> command (\<open>cli.ts\<close>)\<close>

text \<open>
  The action reads the parsed options and the process: its platform, \<open>process.getuid\<close>
  (absent on Windows), the value of \<open>require('is-admin')()\<close>, the detected browsers, and
  what the two registration procedures of another module do when called. The function the
  \<open>is-admin\<close> package exports is asynchronous: the call yields a promise of the answer, and
  line 85 assigns that value without \<open>await\<close>. \<open>JsPromise b\<close> is a promise that resolves to
  \<open>b\<close>, the answer whether the process has administrator rights; \<open>JsBoolean b\<close> is the
  boolean itself; the left summand is the exception when \<open>require\<close> or the call throws. The
  result of the action is the sequence of things it does, ending with \<open>Exit 1\<close> where it calls
  \<open>process.exit(1)\<close>.
\<close>

datatype js_value = JsBoolean bool | JsPromise bool

text \<open>Truthiness, as \<open>||\<close> and \<open>if\<close> test it: every object, so every promise, is truthy.\<close>

fun truthy_value :: "js_value \<Rightarrow> bool" where
  "truthy_value (JsBoolean b) = b"
| "truthy_value (JsPromise b) = True"

record options =
  opt_force :: bool
  opt_system :: bool
  opt_browser :: "string option"
  opt_detect :: bool

record process =
  proc_platform :: string
  getuid :: "nat option"
  is_admin :: "js_error + js_value"
  detectInstalledBrowsers :: "string list"
  registerWithElevatedPermissions :: "js_error + unit"
  tryRegisterUserLevelHost :: "string list option \<Rightarrow> js_error + bool"

datatype event =
    WriteNodePath
  | ConsoleLine string
  | CallRegisterWithElevatedPermissions
  | CallTryRegisterUserLevelHost "string list option"
  | Exit nat

text \<open>Lines 45 to 76: \<open>None\<close> when the browser name is invalid and the process exits.\<close>

definition targetBrowsers :: "options \<Rightarrow> process \<Rightarrow> event list \<times> string list option option" where
  "targetBrowsers opts p =
     (if truthy (opt_browser opts) then
        (if toLowerCase (template_of (opt_browser opts)) = ''all'' then
           ([ConsoleLine ''Registering for all supported browsers...''],
            Some (Some [''chrome'', ''chromium'']))
         else
           (case parseBrowserType (template_of (opt_browser opts)) of
              None \<Rightarrow>
                ([ConsoleLine (''Invalid browser: '' @ template_of (opt_browser opts)
                     @ ''. Use '' @ quoted ''chrome'' @ '', '' @ quoted ''chromium'' @ '', or ''
                     @ quoted ''all''), Exit 1], None)
            | Some browserType \<Rightarrow> ([], Some (Some [browserType]))))
      else if opt_detect opts then
        (if detectInstalledBrowsers p = [] then
           ([ConsoleLine ''No supported browsers detected, will register for Chrome and Chromium''],
            Some None)
         else ([], Some (Some (detectInstalledBrowsers p))))
      else ([], Some None))"

text \<open>Lines 79 to 94.\<close>

definition isRoot :: "process \<Rightarrow> bool" where
  "isRoot p = (case getuid p of None \<Rightarrow> False | Some uid \<Rightarrow> uid = 0)"

definition isAdmin :: "process \<Rightarrow> event list \<times> js_value" where
  "isAdmin p =
     (if proc_platform p = ''win32'' then
        (case is_admin p of
           Inl e \<Rightarrow>
             ([ConsoleLine ''Warning: Unable to detect administrator privileges on Windows''],
              JsBoolean False)
         | Inr v \<Rightarrow> ([], v))
      else ([], JsBoolean False))"

definition hasElevatedPermissions :: "process \<Rightarrow> bool" where
  "hasElevatedPermissions p = (isRoot p \<or> truthy_value (snd (isAdmin p)))"

text \<open>The condition of line 97, as the tier it selects.\<close>

definition installationTier :: "options \<Rightarrow> process \<Rightarrow> tier" where
  "installationTier opts p =
     (if opt_system opts \<or> hasElevatedPermissions p then SystemTier else UserTier)"

definition register_action :: "options \<Rightarrow> process \<Rightarrow> event list" where
  "register_action opts p =
     (let failed = (\<lambda>e. [ConsoleLine (''Registration failed: '' @ error_message e), Exit 1]) in
      [WriteNodePath] @ fst (targetBrowsers opts p) @
      (case snd (targetBrowsers opts p) of
         None \<Rightarrow> []
       | Some targets \<Rightarrow>
           fst (isAdmin p) @
           (if opt_system opts \<or> hasElevatedPermissions p then
              CallRegisterWithElevatedPermissions #
              (case registerWithElevatedPermissions p of
                 Inl e \<Rightarrow> failed e
               | Inr _ \<Rightarrow>
                   [ConsoleLine ''System-level Native Messaging host registered successfully!'',
                    ConsoleLine ''You can now use connectNative in Chrome extension to connect to this service.''])
            else
              ConsoleLine ''Registering user-level Native Messaging host...'' #
              CallTryRegisterUserLevelHost targets #
              (case tryRegisterUserLevelHost p targets of
                 Inl e \<Rightarrow> failed e
               | Inr ok_result \<Rightarrow>
                   if ok_result then
                     [ConsoleLine ''Native Messaging host registered successfully!'',
                      ConsoleLine ''You can now use connectNative in Chrome extension to connect to this service.'']
                   else
                     [ConsoleLine ''User-level registration failed, please try the following methods:'',
                      ConsoleLine ''  1. sudo mcp-chrome-bridge register'',
                      ConsoleLine ''  2. mcp-chrome-bridge register --system'',
                      Exit 1]))))"

text \<open>The registration calls of a run, in order, each with the tier it registers at.\<close>

fun registrations :: "event list \<Rightarrow> tier list" where
  "registrations [] = []"
| "registrations (CallRegisterWithElevatedPermissions # es) = SystemTier # registrations es"
| "registrations (CallTryRegisterUserLevelHost t # es) = UserTier # registrations es"
| "registrations (e # es) = registrations es"


section \<open>Predicates, tables and examples used in the statements\<close>

subsection \<open>Path components\<close>

text \<open>
  A string without separator, and a plain component: one that \<open>normalizeString\<close> keeps as it
  is (not empty, not \<open>.\<close>, not \<open>..\<close>, no separator inside).
\<close>

definition no_sep :: "(char \<Rightarrow> bool) \<Rightarrow> string \<Rightarrow> bool" where
  "no_sep P s = list_all (\<lambda>c. \<not> P c) s"

definition plain_segment :: "(char \<Rightarrow> bool) \<Rightarrow> string \<Rightarrow> bool" where
  "plain_segment P s = (s \<noteq> [] \<and> s \<noteq> ''.'' \<and> s \<noteq> ''..'' \<and> no_sep P s)"

text \<open>
  A Windows path that starts with a drive and a separator (a drive letter, a colon, a separator).
\<close>

definition win32_drive_absolute :: "string \<Rightarrow> bool" where
  "win32_drive_absolute p = (win32_device p \<noteq> [] \<and> win32_isAbsolute p)"

text \<open>
  The normalised form of a directory followed by one separator: what a path below the
  directory starts with.
\<close>

definition posix_dir :: "string \<Rightarrow> string" where
  "posix_dir r =
     (if is_slash (hd r) then ''/'' else []) @
     concat (map (\<lambda>s. s @ ''/'') (normalizeString (\<not> is_slash (hd r)) (split_on is_slash r)))"

definition win32_dir :: "string \<Rightarrow> string" where
  "win32_dir r =
     take 2 r @ [backslash] @
     concat (map (\<lambda>s. s @ [backslash]) (normalizeString False (split_on is_win32_sep (drop 2 r))))"

subsection \<open>The platform table of manifest paths\<close>

text \<open>
  The host name has no separator of either platform in it.
\<close>

definition host_name_ok :: "string \<Rightarrow> bool" where
  "host_name_ok HOST_NAME = no_sep is_win32_sep HOST_NAME"

definition default_program_files :: string where
  "default_program_files = ''C:'' @ [backslash] @ ''Program Files''"

text \<open>
  The directory the environment supplies for the tier is absolute: \<open>%APPDATA%\<close> (the home
  directory when it is unset) and \<open>%ProgramFiles%\<close> on Windows, the home directory elsewhere;
  the system tier outside Windows reads nothing from the environment.
\<close>

definition env_ok :: "os_env \<Rightarrow> tier \<Rightarrow> bool" where
  "env_ok env t =
     (if platform env = ''win32'' then
        (case t of
           UserTier \<Rightarrow> win32_drive_absolute (or_else (APPDATA env) (homedir env))
         | SystemTier \<Rightarrow> win32_drive_absolute (or_else (ProgramFiles env) default_program_files))
      else
        (case t of UserTier \<Rightarrow> posix_isAbsolute (homedir env) | SystemTier \<Rightarrow> True))"

text \<open>
  The root column of the specification's table, with the separator that follows it, and the
  last two components of every row.
\<close>

definition table_root :: "os_env \<Rightarrow> tier \<Rightarrow> string" where
  "table_root env t =
     (if platform env = ''win32'' then
        (case t of
           UserTier \<Rightarrow>
             win32_dir (or_else (APPDATA env) (win32_join [homedir env, ''AppData'', ''Roaming'']))
         | SystemTier \<Rightarrow> win32_dir (or_else (ProgramFiles env) default_program_files))
      else if platform env = ''darwin'' then
        (case t of
           UserTier \<Rightarrow> posix_dir (homedir env) @ ''Library/Application Support/''
         | SystemTier \<Rightarrow> ''/Library/'')
      else
        (case t of
           UserTier \<Rightarrow> posix_dir (homedir env) @ ''.config/''
         | SystemTier \<Rightarrow> ''/etc/''))"

definition hosts_suffix :: "string \<Rightarrow> tier \<Rightarrow> string \<Rightarrow> string" where
  "hosts_suffix pf t HOST_NAME =
     (if pf \<noteq> ''win32'' \<and> pf \<noteq> ''darwin'' \<and> t = SystemTier then
        ''/native-messaging-hosts/'' @ HOST_NAME @ ''.json''
      else [path_sep pf] @ ''NativeMessagingHosts'' @ [path_sep pf] @ HOST_NAME @ ''.json'')"

definition path_shape :: "os_env \<Rightarrow> tier \<Rightarrow> string \<Rightarrow> string \<Rightarrow> bool" where
  "path_shape env t HOST_NAME p =
     (p \<noteq> [] \<and> path_isAbsolute (platform env) p \<and>
      suffix (hosts_suffix (platform env) t HOST_NAME) p \<and>
      prefix (table_root env t) p)"

text \<open>
  A row of the table: the root, the vendor and product directories of the browser, the
  hosts directory and the manifest file. The vendor and product directories are those the
  browsers read: \<open>Google\<close>, \<open>Chrome\<close> and \<open>Chromium\<close>; on Linux \<open>google-chrome\<close> and
  \<open>chromium\<close> below \<open>~/.config\<close>, \<open>opt\<close>, \<open>chrome\<close> and \<open>chromium\<close> below \<open>/etc\<close>.
\<close>

definition vendor_product :: "string \<Rightarrow> tier \<Rightarrow> string \<Rightarrow> string list" where
  "vendor_product pf t browser =
     (if pf = ''win32'' then
        (if browser = ''chromium'' then [''Chromium''] else [''Google'', ''Chrome''])
      else if pf = ''darwin'' then
        (case t of
           UserTier \<Rightarrow>
             if browser = ''chromium'' then [''Chromium''] else [''Google'', ''Chrome'']
         | SystemTier \<Rightarrow>
             if browser = ''chromium'' then [''Application Support'', ''Chromium'']
             else [''Google'', ''Chrome''])
      else
        (case t of
           UserTier \<Rightarrow> if browser = ''chromium'' then [''chromium''] else [''google-chrome'']
         | SystemTier \<Rightarrow> if browser = ''chromium'' then [''chromium''] else [''opt'', ''chrome'']))"

definition table_row :: "string \<Rightarrow> os_env \<Rightarrow> tier \<Rightarrow> string \<Rightarrow> string" where
  "table_row HOST_NAME env t browser =
     table_root env t
     @ concat (map (\<lambda>s. s @ [path_sep (platform env)]) (vendor_product (platform env) t browser))
     @ tl (hosts_suffix (platform env) t HOST_NAME)"

definition linux_env :: os_env where
  "linux_env = \<lparr>platform = ''linux'', homedir = ''/home/u'', APPDATA = None, ProgramFiles = None\<rparr>"

definition windows_env :: os_env where
  "windows_env =
     \<lparr>platform = ''win32'',
      homedir = ''C:'' @ [backslash] @ ''Users'' @ [backslash] @ ''u'',
      APPDATA = None, ProgramFiles = None\<rparr>"

definition mac_env :: os_env where
  "mac_env = \<lparr>platform = ''darwin'', homedir = ''/Users/u'', APPDATA = None, ProgramFiles = None\<rparr>"

subsection \<open>Files and hosts\<close>

text \<open>
  The path leads to a regular file that can be read; the path leads below the directory
  \<open>root\<close>.
\<close>

definition is_readable_regular_file :: "filesystem \<Rightarrow> string \<Rightarrow> bool" where
  "is_readable_regular_file fs p =
     (case lookup fs p of None \<Rightarrow> False | Some n \<Rightarrow> kind n = RegularFile \<and> readable n)"

definition is_descendant :: "filesystem \<Rightarrow> string \<Rightarrow> string \<Rightarrow> bool" where
  "is_descendant fs root p =
     (length (resolve fs root) < length (resolve fs p) \<and>
      take (length (resolve fs root)) (resolve fs p) = resolve fs root)"

text \<open>
  A file system with the temporary directory and a file outside it, and a host without
  network.
\<close>

definition dir_node :: node where
  "dir_node = \<lparr>kind = Directory, mtimeMs = 0, content = [], readable = True, locked = False\<rparr>"

definition file_node :: "int \<Rightarrow> 8 word list \<Rightarrow> node" where
  "file_node t bytes =
     \<lparr>kind = RegularFile, mtimeMs = t, content = bytes, readable = True, locked = False\<rparr>"

definition host0 :: host where
  "host0 =
     \<lparr>tempDir = ''/tmp/chrome-mcp-uploads'',
      fetch = (\<lambda>u. Inl (Error ''network unreachable'')),
      url_pathname = (\<lambda>u. None),
      randomBytes = (\<lambda>n. replicate n 0),
      date_now = 10000000,
      base64_decode = (\<lambda>s. [])\<rparr>"

definition fs0 :: filesystem where
  "fs0 =
     \<lparr>cwd = [],
      nodes =
        [([''tmp''], dir_node),
         ([''tmp'', ''chrome-mcp-uploads''], dir_node),
         ([''tmp'', ''chrome-mcp-uploads'', ''a.bin''], file_node 9999000 [1, 2, 3]),
         ([''etc''], dir_node),
         ([''etc'', ''passwd''], file_node 0 [114, 111, 111, 116])]\<rparr>"

definition bare_request :: "string \<Rightarrow> request" where
  "bare_request a =
     \<lparr>action = Some a, fileUrl = None, base64Data = None, fileName = None, filePath = None\<rparr>"

definition traversal_path :: string where
  "traversal_path = ''/tmp/chrome-mcp-uploads/../../etc/passwd''"

text \<open>
  A path into the temporary directory that is written through \<open>.\<close>.
\<close>

definition dotted_path :: string where
  "dotted_path = ''/tmp/./chrome-mcp-uploads/gone.bin''"

text \<open>
  The last segment of the URL's path, when the URL parses and has one.
\<close>

definition usable_segment :: "host \<Rightarrow> string \<Rightarrow> string option" where
  "usable_segment h url =
     (if url = [] then None
      else
        (case url_pathname h url of
           None \<Rightarrow> None
         | Some pathname \<Rightarrow>
             if posix_basename pathname = [] then None else Some (posix_basename pathname)))"

text \<open>
  A host whose network answers every request with three bytes, parameterised by the byte
  its random source repeats, and the file systems after one and two downloads.
\<close>

definition web_host :: "8 word \<Rightarrow> host" where
  "web_host r =
     \<lparr>tempDir = ''/tmp/chrome-mcp-uploads'',
      fetch = (\<lambda>u. Inr \<lparr>ok = True, statusText = ''OK'', buffer = Inr [1, 2, 3]\<rparr>),
      url_pathname =
        (\<lambda>u. if u = ''https://example.com/img/logo.png'' then Some ''/img/logo.png'' else None),
      randomBytes = (\<lambda>n. replicate n r),
      date_now = 10000000,
      base64_decode = (\<lambda>s. [])\<rparr>"

definition staged_once :: filesystem where
  "staged_once =
     fs0\<lparr>nodes := nodes fs0 @
        [([''tmp'', ''chrome-mcp-uploads'', ''logo-00000000.png''],
          \<lparr>kind = RegularFile, mtimeMs = 10000000, content = [1, 2, 3], readable = True,
           locked = False\<rparr>)]\<rparr>"

definition staged_twice :: filesystem where
  "staged_twice =
     staged_once\<lparr>nodes := nodes staged_once @
        [([''tmp'', ''chrome-mcp-uploads'', ''logo-01010101.png''],
          \<lparr>kind = RegularFile, mtimeMs = 10000000, content = [1, 2, 3], readable = True,
           locked = False\<rparr>)]\<rparr>"

subsection \<open>The sweep\<close>

text \<open>
  Distinct keys, made of plain components.
\<close>

definition wf_fs :: "filesystem \<Rightarrow> bool" where
  "wf_fs fs =
     (distinct (map fst (nodes fs)) \<and>
      list_all (\<lambda>e. list_all (plain_segment is_slash) (fst e)) (nodes fs))"

text \<open>
  An entry is old when it was modified more than one hour before \<open>now\<close>. It makes the
  sweep fail when \<open>stat\<close> throws on it (a dangling link) or when it is old and \<open>unlink\<close> throws
  on it (a directory, a locked entry).
\<close>

definition is_old :: "int \<Rightarrow> node \<Rightarrow> bool" where
  "is_old now n = (now - mtimeMs n > oneHour)"

definition entry_fails :: "int \<Rightarrow> node \<Rightarrow> bool" where
  "entry_fails now n =
     (kind n = BrokenLink \<or> (is_old now n \<and> (kind n = Directory \<or> locked n)))"

text \<open>
  For a listing \<open>files\<close> of the directory stored under \<open>dir_key\<close>: the entries the sweep gets
  through (\<open>swept\<close>: the front part of the listing before the first failing entry) and
  those of them it deletes.
\<close>

definition passes :: "filesystem \<Rightarrow> key \<Rightarrow> int \<Rightarrow> string \<Rightarrow> bool" where
  "passes fs dir_key now f =
     (case map_of (nodes fs) (dir_key @ [f]) of None \<Rightarrow> False | Some n \<Rightarrow> \<not> entry_fails now n)"

definition old_entry :: "filesystem \<Rightarrow> key \<Rightarrow> int \<Rightarrow> string \<Rightarrow> bool" where
  "old_entry fs dir_key now f =
     (case map_of (nodes fs) (dir_key @ [f]) of None \<Rightarrow> False | Some n \<Rightarrow> is_old now n)"

definition swept :: "filesystem \<Rightarrow> key \<Rightarrow> int \<Rightarrow> string list \<Rightarrow> string list" where
  "swept fs dir_key now files = takeWhile (passes fs dir_key now) files"

definition deleted :: "filesystem \<Rightarrow> key \<Rightarrow> int \<Rightarrow> string list \<Rightarrow> string list" where
  "deleted fs dir_key now files = filter (old_entry fs dir_key now) (swept fs dir_key now files)"

text \<open>
  The file system without the nodes stored under the given keys.
\<close>

definition without :: "filesystem \<Rightarrow> key set \<Rightarrow> filesystem" where
  "without fs ks = fs\<lparr>nodes := filter (\<lambda>e. fst e \<notin> ks) (nodes fs)\<rparr>"

fun is_ConsoleError :: "console \<Rightarrow> bool" where
  "is_ConsoleError (ConsoleError m e) = True"
| "is_ConsoleError (Log m) = False"

text \<open>
  A temporary directory that lists an old file, a fresh file, an old directory and another
  old file.
\<close>

definition sweep_fs :: filesystem where
  "sweep_fs =
     \<lparr>cwd = [],
      nodes =
        [([''tmp''], dir_node),
         ([''tmp'', ''chrome-mcp-uploads''], dir_node),
         ([''tmp'', ''chrome-mcp-uploads'', ''a.bin''], file_node 0 [1]),
         ([''tmp'', ''chrome-mcp-uploads'', ''b.bin''], file_node 9999000 [2]),
         ([''tmp'', ''chrome-mcp-uploads'', ''cache''], dir_node),
         ([''tmp'', ''chrome-mcp-uploads'', ''stale.bin''], file_node 0 [3])]\<rparr>"

subsection \<open>Processes\<close>

text \<open>
  A root process on Linux, a Windows process without \<open>getuid\<close> whose administrator check
  throws, and a Windows process without administrator rights whose check yields the promise
  of that answer.
\<close>

definition root_process :: process where
  "root_process =
     \<lparr>proc_platform = ''linux'', getuid = Some 0, is_admin = Inr (JsBoolean False),
      detectInstalledBrowsers = [''chrome''],
      registerWithElevatedPermissions = Inr (),
      tryRegisterUserLevelHost = (\<lambda>t. Inr True)\<rparr>"

definition windows_user_process :: process where
  "windows_user_process =
     \<lparr>proc_platform = ''win32'', getuid = None, is_admin = Inl (Error ''Cannot find module''),
      detectInstalledBrowsers = [],
      registerWithElevatedPermissions = Inr (),
      tryRegisterUserLevelHost = (\<lambda>t. Inr True)\<rparr>"

definition plain_options :: options where
  "plain_options = \<lparr>opt_force = False, opt_system = False, opt_browser = None, opt_detect = False\<rparr>"

definition windows_plain_process :: process where
  "windows_plain_process =
     \<lparr>proc_platform = ''win32'', getuid = None, is_admin = Inr (JsPromise False),
      detectInstalledBrowsers = [''chrome''],
      registerWithElevatedPermissions = Inr (),
      tryRegisterUserLevelHost = (\<lambda>t. Inr True)\<rparr>"


section \<open>Facts about paths\<close>

lemma split_on_not_Nil: "split_on P s \<noteq> []"
  by (induction s) (auto split: list.splits)

lemma split_on_no_sep: "no_sep P s \<Longrightarrow> split_on P s = [s]"
  by (induction s) (auto simp: no_sep_def)

lemma split_on_append_sep: "P c \<Longrightarrow> split_on P (a @ c # b) = split_on P a @ split_on P b"
proof (induction a)
  case Nil
  then show ?case by simp
next
  case (Cons x a)
  obtain s ss where s: "split_on P a = s # ss"
    using split_on_not_Nil [of P a] by (cases "split_on P a") auto
  with Cons show ?case by simp
qed

lemma split_on_intercalate:
  "P c \<Longrightarrow> list_all (no_sep P) ps \<Longrightarrow>
   split_on P (intercalate [c] (r # ps)) = split_on P r @ ps"
proof (induction ps arbitrary: r)
  case Nil
  then show ?case by simp
next
  case (Cons p ps)
  have "split_on P (intercalate [c] (p # ps)) = split_on P p @ ps"
    using Cons by simp
  moreover have "split_on P p = [p]"
    using Cons.prems by (simp add: split_on_no_sep)
  ultimately show ?case
    using Cons.prems(1) by (simp add: split_on_append_sep)
qed

lemma foldl_norm_step_plain:
  "list_all (plain_segment P) ps \<Longrightarrow> foldl (norm_step a) res ps = res @ ps"
  by (induction ps arbitrary: res) (auto simp: norm_step_def plain_segment_def)

lemma normalizeString_append_plain:
  "list_all (plain_segment P) ps \<Longrightarrow>
   normalizeString a (xs @ ps) = normalizeString a xs @ ps"
  by (simp add: normalizeString_def foldl_norm_step_plain)

lemma intercalate_append:
  "xs \<noteq> [] \<Longrightarrow> ys \<noteq> [] \<Longrightarrow>
   intercalate sep (xs @ ys) = intercalate sep xs @ sep @ intercalate sep ys"
proof (induction sep xs rule: intercalate.induct)
  case (1 sep)
  then show ?case by simp
next
  case (2 sep x)
  then show ?case by (cases ys) auto
next
  case (3 sep x y ys)
  then show ?case by simp
qed

lemma intercalate_snoc:
  "xs \<noteq> [] \<Longrightarrow> intercalate sep (xs @ [y]) = intercalate sep xs @ sep @ y"
  by (simp add: intercalate_append)

lemma hd_intercalate: "r \<noteq> [] \<Longrightarrow> hd (intercalate sep (r # ps)) = hd r"
  by (cases ps) auto

lemma intercalate_Cons_not_Nil: "r \<noteq> [] \<Longrightarrow> intercalate sep (r # ps) \<noteq> []"
  by (cases ps) auto

lemma last_intercalate:
  assumes "ps \<noteq> []" "last ps \<noteq> []"
  shows "last (intercalate sep (r # ps)) = last (last ps)"
proof -
  have "r # ps = (r # butlast ps) @ [last ps]"
    using assms by simp
  then have "intercalate sep (r # ps) = intercalate sep (r # butlast ps) @ sep @ last ps"
    using intercalate_snoc [of "r # butlast ps" sep "last ps"] by simp
  then show ?thesis using assms by simp
qed

lemma intercalate_append_not_Nil:
  assumes "ps \<noteq> []" "last ps \<noteq> []"
  shows "intercalate sep (xs @ ps) \<noteq> []"
proof (cases "xs @ butlast ps = []")
  case True
  then have "xs @ ps = [last ps]" using assms append_butlast_last_id [of ps] by simp
  then show ?thesis using assms by simp
next
  case False
  have "xs @ ps = (xs @ butlast ps) @ [last ps]" using assms by simp
  then have "intercalate sep (xs @ ps) = intercalate sep (xs @ butlast ps) @ sep @ last ps"
    using intercalate_snoc [OF False, of sep "last ps"] by simp
  then show ?thesis using assms by simp
qed

lemma plain_segment_last:
  assumes "ps \<noteq> []" "list_all (plain_segment P) ps"
  shows "last ps \<noteq> [] \<and> \<not> P (last (last ps))"
proof -
  have "plain_segment P (last ps)"
    using assms by (simp add: list_all_iff)
  then show ?thesis
    by (auto simp: plain_segment_def no_sep_def list_all_iff)
qed

lemma plain_segment_no_sep: "list_all (plain_segment P) ps \<Longrightarrow> list_all (no_sep P) ps"
  by (simp add: list_all_iff plain_segment_def)

lemma plain_segment_filter:
  "list_all (plain_segment P) ps \<Longrightarrow> filter (\<lambda>a. a \<noteq> []) ps = ps"
  by (induction ps) (auto simp: plain_segment_def)

lemma posix_join_plain:
  assumes r: "r \<noteq> []" and ps: "ps \<noteq> []" "list_all (plain_segment is_slash) ps"
  shows "posix_join (r # ps) =
           (if is_slash (hd r) then ''/'' else []) @
           intercalate ''/'' (normalizeString (\<not> is_slash (hd r)) (split_on is_slash r) @ ps)"
proof -
  let ?j = "intercalate ''/'' (r # ps)"
  have slash: "is_slash CHR ''/''" by (simp add: is_slash_def)
  have parts: "filter (\<lambda>a. a \<noteq> []) (r # ps) = r # ps"
    using r ps by (simp add: plain_segment_filter)
  have j: "?j \<noteq> []" using r by (rule intercalate_Cons_not_Nil)
  have hd: "hd ?j = hd r" using r by (rule hd_intercalate)
  have lastps: "last ps \<noteq> []" "\<not> is_slash (last (last ps))"
    using plain_segment_last [OF ps] by simp_all
  have last: "\<not> is_slash (last ?j)"
    using last_intercalate [OF ps(1) lastps(1), of "''/''" r] lastps by simp
  have split: "split_on is_slash ?j = split_on is_slash r @ ps"
    using split_on_intercalate [OF slash plain_segment_no_sep [OF ps(2)], of r] by simp
  have body: "intercalate ''/'' (normalizeString (\<not> is_slash (hd r)) (split_on is_slash r) @ ps) \<noteq> []"
    using intercalate_append_not_Nil [OF ps(1) lastps(1)] by simp
  show ?thesis
    unfolding posix_join_def parts
    using j hd last split body
    by (simp add: posix_normalize_def Let_def normalizeString_append_plain [OF ps(2)])
qed

lemma win32_drive_absoluteD:
  assumes "win32_drive_absolute r"
  obtains c s rest where "r = c # CHR '':'' # s # rest" "isWindowsDeviceRoot c" "is_win32_sep s"
proof -
  from assms obtain c d t where r: "r = c # d # t" and c: "isWindowsDeviceRoot c" and d: "d = CHR '':''"
    by (auto simp: win32_drive_absolute_def win32_device_def split: list.splits if_splits)
  then have dev: "win32_device r = [c, d]" by (simp add: win32_device_def)
  from assms have "t \<noteq> [] \<and> is_win32_sep (hd t)"
    unfolding win32_drive_absolute_def win32_isAbsolute_def dev using r by (simp add: Let_def)
  then obtain s rest where "t = s # rest" "is_win32_sep s" by (cases t) auto
  with r c d that show ?thesis by blast
qed

lemma win32_join_plain:
  assumes r: "win32_drive_absolute r" and ps: "ps \<noteq> []" "list_all (plain_segment is_win32_sep) ps"
  shows "win32_join (r # ps) =
           take 2 r @ [backslash] @
           intercalate [backslash] (normalizeString False (split_on is_win32_sep (drop 2 r)) @ ps)"
proof -
  obtain c s rest where r': "r = c # CHR '':'' # s # rest" and c: "isWindowsDeviceRoot c"
    and s: "is_win32_sep s"
    using r by (rule win32_drive_absoluteD)
  let ?j = "intercalate [backslash] (r # ps)"
  have bs: "is_win32_sep backslash" by (simp add: is_win32_sep_def)
  have rne: "r \<noteq> []" using r' by simp
  have parts: "filter (\<lambda>a. a \<noteq> []) (r # ps) = r # ps"
    using rne ps by (simp add: plain_segment_filter)
  obtain q qs where psq: "ps = q # qs" using ps(1) by (cases ps) auto
  have jform: "?j = c # CHR '':'' # s # rest @ [backslash] @ intercalate [backslash] ps"
    using r' psq by simp
  have dev: "win32_device ?j = [c, CHR '':'']"
    unfolding jform using c by (simp add: win32_device_def)
  have lastps: "last ps \<noteq> []" "\<not> is_win32_sep (last (last ps))"
    using plain_segment_last [OF ps] by simp_all
  have last: "\<not> is_win32_sep (last ?j)"
    using last_intercalate [OF ps(1) lastps(1), of "[backslash]" r] lastps by simp
  have "drop (Suc (Suc 0)) ?j = intercalate [backslash] (drop 2 r # ps)"
    using r' psq by simp
  then have split: "split_on is_win32_sep (drop (Suc (Suc 0)) ?j) = split_on is_win32_sep (drop 2 r) @ ps"
    using split_on_intercalate [OF bs plain_segment_no_sep [OF ps(2)], of "drop 2 r"] by simp
  have body: "intercalate [backslash] (normalizeString False (split_on is_win32_sep (drop 2 r)) @ ps) \<noteq> []"
    using intercalate_append_not_Nil [OF ps(1) lastps(1)] by simp
  have abs: "drop (Suc (Suc 0)) ?j \<noteq> [] \<and> is_win32_sep (hd (drop (Suc (Suc 0)) ?j))"
    unfolding jform using s by simp
  have j: "?j \<noteq> []" unfolding jform by simp
  have take: "take 2 r = [c, CHR '':'']" using r' by simp
  show ?thesis
    unfolding win32_join_def parts take
    using j dev last split body abs
    by (simp add: win32_normalize_def Let_def normalizeString_append_plain [OF ps(2)])
qed

lemma intercalate_concat:
  "ps \<noteq> [] \<Longrightarrow> intercalate sep (ns @ ps) = concat (map (\<lambda>s. s @ sep) ns) @ intercalate sep ps"
proof (induction ns)
  case Nil
  then show ?case by simp
next
  case (Cons n ns)
  then obtain y ys where "ns @ ps = y # ys" by (cases "ns @ ps") auto
  with Cons show ?case by simp
qed

lemma posix_join_dir:
  assumes "r \<noteq> []" "ps \<noteq> []" "list_all (plain_segment is_slash) ps"
  shows "posix_join (r # ps) = posix_dir r @ intercalate ''/'' ps"
  using posix_join_plain [OF assms] intercalate_concat [OF assms(2)]
  by (simp add: posix_dir_def)

lemma win32_join_dir:
  assumes "win32_drive_absolute r" "ps \<noteq> []" "list_all (plain_segment is_win32_sep) ps"
  shows "win32_join (r # ps) = win32_dir r @ intercalate [backslash] ps"
  using win32_join_plain [OF assms] intercalate_concat [OF assms(2)]
  by (simp add: win32_dir_def)

lemma sep_concat_ends: "\<exists>x. c # concat (map (\<lambda>s. s @ [c]) ns) = x @ [c]"
proof (cases ns rule: rev_cases)
  case Nil
  then show ?thesis by simp
next
  case (snoc ms m)
  then have "c # concat (map (\<lambda>s. s @ [c]) ns) = (c # concat (map (\<lambda>s. s @ [c]) ms) @ m) @ [c]"
    by simp
  then show ?thesis by blast
qed

lemma posix_join_shape:
  assumes r: "posix_isAbsolute r" and ps: "list_all (plain_segment is_slash) (ps @ [d, f])"
  shows "posix_join (r # ps @ [d, f]) \<noteq> [] \<and>
         posix_isAbsolute (posix_join (r # ps @ [d, f])) \<and>
         suffix (''/'' @ d @ ''/'' @ f) (posix_join (r # ps @ [d, f])) \<and>
         prefix (posix_dir r @ concat (map (\<lambda>s. s @ ''/'') ps)) (posix_join (r # ps @ [d, f]))"
proof -
  have rne: "r \<noteq> []" and hd: "is_slash (hd r)"
    using r by (simp_all add: posix_isAbsolute_def)
  define D where "D = posix_dir r @ concat (map (\<lambda>s. s @ ''/'') ps)"
  have eq: "posix_join (r # ps @ [d, f]) = D @ d @ ''/'' @ f"
    using posix_join_dir [OF rne _ ps] intercalate_concat [of "[d, f]" "''/''" ps]
    by (simp add: D_def)
  have D1: "D = CHR ''/'' # tl D"
    using hd by (simp add: D_def posix_dir_def)
  have "D = CHR ''/'' # concat (map (\<lambda>s. s @ ''/'')
              (normalizeString False (split_on is_slash r) @ ps))"
    using hd by (simp add: D_def posix_dir_def)
  then obtain x where D2: "D = x @ ''/''"
    using sep_concat_ends [of "CHR ''/''"] by metis
  have 1: "posix_join (r # ps @ [d, f]) \<noteq> []"
    unfolding eq using D1 by (cases D) auto
  have 2: "posix_isAbsolute (posix_join (r # ps @ [d, f]))"
    unfolding eq posix_isAbsolute_def using D1 by (cases D) (auto simp: is_slash_def)
  have "posix_join (r # ps @ [d, f]) = x @ (''/'' @ d @ ''/'' @ f)"
    unfolding eq D2 by simp
  then have 3: "suffix (''/'' @ d @ ''/'' @ f) (posix_join (r # ps @ [d, f]))"
    unfolding suffix_def by blast
  have 4: "prefix D (posix_join (r # ps @ [d, f]))"
    unfolding eq by simp
  show ?thesis using 1 2 3 4 unfolding D_def by blast
qed

lemma win32_join_shape:
  assumes r: "win32_drive_absolute r" and ps: "list_all (plain_segment is_win32_sep) (ps @ [d, f])"
  shows "win32_join (r # ps @ [d, f]) \<noteq> [] \<and>
         win32_drive_absolute (win32_join (r # ps @ [d, f])) \<and>
         suffix ([backslash] @ d @ [backslash] @ f) (win32_join (r # ps @ [d, f])) \<and>
         prefix (win32_dir r @ concat (map (\<lambda>s. s @ [backslash]) ps)) (win32_join (r # ps @ [d, f]))"
proof -
  obtain c s rest where r': "r = c # CHR '':'' # s # rest" and c: "isWindowsDeviceRoot c"
    and s: "is_win32_sep s"
    using r by (rule win32_drive_absoluteD)
  define D where "D = win32_dir r @ concat (map (\<lambda>s. s @ [backslash]) ps)"
  have eq: "win32_join (r # ps @ [d, f]) = D @ d @ [backslash] @ f"
    using win32_join_dir [OF r _ ps] intercalate_concat [of "[d, f]" "[backslash]" ps]
    by (simp add: D_def)
  have D0: "D = [c, CHR '':''] @ backslash # concat (map (\<lambda>s. s @ [backslash])
              (normalizeString False (split_on is_win32_sep (drop 2 r)) @ ps))"
    using r' by (simp add: D_def win32_dir_def)
  then obtain x where D2: "D = [c, CHR '':''] @ x @ [backslash]"
    using sep_concat_ends [of backslash] by metis
  obtain y where D1: "D = c # CHR '':'' # backslash # y"
    using D0 by simp
  have 1: "win32_join (r # ps @ [d, f]) \<noteq> []"
    unfolding eq D1 by simp
  have 2: "win32_drive_absolute (win32_join (r # ps @ [d, f]))"
    unfolding eq D1 using c
    by (simp add: win32_drive_absolute_def win32_device_def win32_isAbsolute_def is_win32_sep_def)
  have "win32_join (r # ps @ [d, f]) = ([c, CHR '':''] @ x) @ ([backslash] @ d @ [backslash] @ f)"
    unfolding eq D2 by simp
  then have 3: "suffix ([backslash] @ d @ [backslash] @ f) (win32_join (r # ps @ [d, f]))"
    unfolding suffix_def by blast
  have 4: "prefix D (win32_join (r # ps @ [d, f]))"
    unfolding eq by simp
  show ?thesis using 1 2 3 4 unfolding D_def by blast
qed

lemma host_json_plain:
  assumes "host_name_ok HOST_NAME"
  shows "plain_segment is_slash (HOST_NAME @ ''.json'')"
    and "plain_segment is_win32_sep (HOST_NAME @ ''.json'')"
  using assms
  by (auto simp: host_name_ok_def plain_segment_def no_sep_def is_win32_sep_def is_slash_def
      backslash_def list_all_iff append_eq_Cons_conv)

lemma plain_literal [simp]:
  "plain_segment is_slash ''Library''" "plain_segment is_slash ''Application Support''"
  "plain_segment is_slash ''Google''" "plain_segment is_slash ''Chrome''"
  "plain_segment is_slash ''Chromium''" "plain_segment is_slash ''NativeMessagingHosts''"
  "plain_segment is_slash ''.config''" "plain_segment is_slash ''google-chrome''"
  "plain_segment is_slash ''chromium''" "plain_segment is_slash ''opt''"
  "plain_segment is_slash ''chrome''" "plain_segment is_slash ''native-messaging-hosts''"
  "plain_segment is_win32_sep ''Google''" "plain_segment is_win32_sep ''Chrome''"
  "plain_segment is_win32_sep ''Chromium''" "plain_segment is_win32_sep ''NativeMessagingHosts''"
  "plain_segment is_win32_sep ''AppData''" "plain_segment is_win32_sep ''Roaming''"
  by (simp_all add: plain_segment_def no_sep_def is_slash_def is_win32_sep_def backslash_def)

lemma posix_dir_literal [simp]:
  "posix_dir ''/Library'' = ''/Library/''" "posix_dir ''/etc'' = ''/etc/''"
  by (simp_all add: posix_dir_def is_slash_def normalizeString_def norm_step_def)

lemma posix_isAbsolute_literal [simp]:
  "posix_isAbsolute ''/Library''" "posix_isAbsolute ''/etc''"
  by (simp_all add: posix_isAbsolute_def is_slash_def)

lemma prefix_appendD: "prefix (a @ b) c \<Longrightarrow> prefix a c"
  by (auto simp: prefix_def)

lemma posix_path_shapeI:
  assumes pf: "platform env \<noteq> ''win32''"
    and r: "posix_isAbsolute r"
    and ps: "list_all (plain_segment is_slash) ps"
    and d: "plain_segment is_slash d"
      "hosts_suffix (platform env) t HOST_NAME = ''/'' @ d @ ''/'' @ HOST_NAME @ ''.json''"
    and h: "host_name_ok HOST_NAME"
    and root: "prefix (table_root env t) (posix_dir r @ concat (map (\<lambda>s. s @ ''/'') ps))"
  shows "path_shape env t HOST_NAME (posix_join (r # ps @ [d, HOST_NAME @ ''.json'']))"
proof -
  have "list_all (plain_segment is_slash) (ps @ [d, HOST_NAME @ ''.json''])"
    using ps d(1) host_json_plain(1) [OF h] by simp
  from posix_join_shape [OF r this] root d(2) pf show ?thesis
    unfolding path_shape_def path_isAbsolute_def
    using prefix_order.trans by auto
qed

lemma win32_path_shapeI:
  assumes pf: "platform env = ''win32''"
    and r: "win32_drive_absolute r"
    and ps: "list_all (plain_segment is_win32_sep) ps"
    and h: "host_name_ok HOST_NAME"
    and root: "prefix (table_root env t) (win32_dir r @ concat (map (\<lambda>s. s @ [backslash]) ps))"
  shows "path_shape env t HOST_NAME
           (win32_join (r # ps @ [''NativeMessagingHosts'', HOST_NAME @ ''.json'']))"
proof -
  have "list_all (plain_segment is_win32_sep) (ps @ [''NativeMessagingHosts'', HOST_NAME @ ''.json''])"
    using ps host_json_plain(2) [OF h] by simp
  from win32_join_shape [OF r this] root pf show ?thesis
    unfolding path_shape_def path_isAbsolute_def hosts_suffix_def path_sep_def win32_drive_absolute_def
    using prefix_order.trans by auto
qed

lemma getUser_shape:
  assumes ok: "env_ok env UserTier" and h: "host_name_ok HOST_NAME"
  shows "path_shape env UserTier HOST_NAME (getUserManifestPathForBrowser HOST_NAME env b)"
proof -
  consider (win) "platform env = ''win32''"
    | (mac) "platform env \<noteq> ''win32''" "platform env = ''darwin''"
    | (lin) "platform env \<noteq> ''win32''" "platform env \<noteq> ''darwin''"
    by blast
  then show ?thesis
  proof cases
    case win
    define appData where
      "appData = or_else (APPDATA env) (win32_join [homedir env, ''AppData'', ''Roaming''])"
    have abs: "win32_drive_absolute appData"
    proof (cases "truthy (APPDATA env)")
      case True
      then have "appData = or_else (APPDATA env) (homedir env)"
        by (auto simp: appData_def or_else_def truthy_def split: option.splits)
      then show ?thesis using ok win by (simp add: env_ok_def)
    next
      case False
      then have a: "appData = win32_join (homedir env # [] @ [''AppData'', ''Roaming''])"
        and "or_else (APPDATA env) (homedir env) = homedir env"
        by (auto simp: appData_def or_else_def truthy_def split: option.splits)
      then have "win32_drive_absolute (homedir env)"
        using ok win by (simp add: env_ok_def)
      from win32_join_shape [OF this, of "[]" "''AppData''" "''Roaming''"] show ?thesis
        unfolding a by simp
    qed
    have root: "table_root env UserTier = win32_dir appData"
      using win by (simp add: table_root_def appData_def)
    have A: "path_shape env UserTier HOST_NAME
        (win32_join (appData # ps @ [''NativeMessagingHosts'', HOST_NAME @ ''.json'']))"
      if "list_all (plain_segment is_win32_sep) ps" for ps
      using win32_path_shapeI [OF win abs that h] root by simp
    have "getUserManifestPathForBrowser HOST_NAME env b =
        win32_join (appData # (if b = ''chromium'' then [''Chromium''] else [''Google'', ''Chrome''])
          @ [''NativeMessagingHosts'', HOST_NAME @ ''.json''])"
      using win by (simp add: getUserManifestPathForBrowser_def path_join_def Let_def appData_def)
    then show ?thesis using A by simp
  next
    case mac
    have abs: "posix_isAbsolute (homedir env)"
      using ok mac by (simp add: env_ok_def)
    have sfx: "hosts_suffix (platform env) UserTier HOST_NAME
        = ''/'' @ ''NativeMessagingHosts'' @ ''/'' @ HOST_NAME @ ''.json''"
      using mac by (simp add: hosts_suffix_def path_sep_def)
    have A: "path_shape env UserTier HOST_NAME
        (posix_join (homedir env # ([''Library'', ''Application Support''] @ ps)
           @ [''NativeMessagingHosts'', HOST_NAME @ ''.json'']))"
      if "list_all (plain_segment is_slash) ps" for ps
      using posix_path_shapeI [OF mac(1) abs _ _ sfx h,
          of "[''Library'', ''Application Support''] @ ps"] that mac
      by (simp add: table_root_def)
    have "getUserManifestPathForBrowser HOST_NAME env b =
        posix_join (homedir env # ([''Library'', ''Application Support''] @
          (if b = ''chromium'' then [''Chromium''] else [''Google'', ''Chrome'']))
          @ [''NativeMessagingHosts'', HOST_NAME @ ''.json''])"
      using mac by (simp add: getUserManifestPathForBrowser_def path_join_def Let_def)
    then show ?thesis using A by simp
  next
    case lin
    have abs: "posix_isAbsolute (homedir env)"
      using ok lin by (simp add: env_ok_def)
    have sfx: "hosts_suffix (platform env) UserTier HOST_NAME
        = ''/'' @ ''NativeMessagingHosts'' @ ''/'' @ HOST_NAME @ ''.json''"
      using lin by (simp add: hosts_suffix_def path_sep_def)
    have A: "path_shape env UserTier HOST_NAME
        (posix_join (homedir env # ([''.config''] @ ps)
           @ [''NativeMessagingHosts'', HOST_NAME @ ''.json'']))"
      if "list_all (plain_segment is_slash) ps" for ps
      using posix_path_shapeI [OF lin(1) abs _ _ sfx h, of "[''.config''] @ ps"] that lin
      by (simp add: table_root_def)
    have "getUserManifestPathForBrowser HOST_NAME env b =
        posix_join (homedir env # ([''.config''] @
          (if b = ''chromium'' then [''chromium''] else [''google-chrome'']))
          @ [''NativeMessagingHosts'', HOST_NAME @ ''.json''])"
      using lin by (simp add: getUserManifestPathForBrowser_def path_join_def Let_def)
    then show ?thesis using A by simp
  qed
qed

lemma getSystem_shape:
  assumes ok: "env_ok env SystemTier" and h: "host_name_ok HOST_NAME"
  shows "path_shape env SystemTier HOST_NAME (getSystemManifestPathForBrowser HOST_NAME env b)"
proof -
  consider (win) "platform env = ''win32''"
    | (mac) "platform env \<noteq> ''win32''" "platform env = ''darwin''"
    | (lin) "platform env \<noteq> ''win32''" "platform env \<noteq> ''darwin''"
    by blast
  then show ?thesis
  proof cases
    case win
    define programFiles where
      "programFiles = or_else (ProgramFiles env) default_program_files"
    have abs: "win32_drive_absolute programFiles"
      using ok win by (simp add: env_ok_def programFiles_def)
    have root: "table_root env SystemTier = win32_dir programFiles"
      using win by (simp add: table_root_def programFiles_def)
    have A: "path_shape env SystemTier HOST_NAME
        (win32_join (programFiles # ps @ [''NativeMessagingHosts'', HOST_NAME @ ''.json'']))"
      if "list_all (plain_segment is_win32_sep) ps" for ps
      using win32_path_shapeI [OF win abs that h] root by simp
    have "getSystemManifestPathForBrowser HOST_NAME env b =
        win32_join (programFiles # (if b = ''chromium'' then [''Chromium''] else [''Google'', ''Chrome''])
          @ [''NativeMessagingHosts'', HOST_NAME @ ''.json''])"
      using win
      by (simp add: getSystemManifestPathForBrowser_def path_join_def Let_def programFiles_def
          default_program_files_def)
    then show ?thesis using A by simp
  next
    case mac
    have sfx: "hosts_suffix (platform env) SystemTier HOST_NAME
        = ''/'' @ ''NativeMessagingHosts'' @ ''/'' @ HOST_NAME @ ''.json''"
      using mac by (simp add: hosts_suffix_def path_sep_def)
    have A: "path_shape env SystemTier HOST_NAME
        (posix_join (''/Library'' # ps @ [''NativeMessagingHosts'', HOST_NAME @ ''.json'']))"
      if "list_all (plain_segment is_slash) ps" for ps
      using posix_path_shapeI [OF mac(1) _ that _ sfx h, of "''/Library''"] mac
      by (simp add: table_root_def)
    have "getSystemManifestPathForBrowser HOST_NAME env b =
        posix_join (''/Library'' #
          (if b = ''chromium'' then [''Application Support'', ''Chromium''] else [''Google'', ''Chrome''])
          @ [''NativeMessagingHosts'', HOST_NAME @ ''.json''])"
      using mac by (simp add: getSystemManifestPathForBrowser_def path_join_def Let_def)
    then show ?thesis using A by simp
  next
    case lin
    have sfx: "hosts_suffix (platform env) SystemTier HOST_NAME
        = ''/'' @ ''native-messaging-hosts'' @ ''/'' @ HOST_NAME @ ''.json''"
      using lin by (simp add: hosts_suffix_def)
    have A: "path_shape env SystemTier HOST_NAME
        (posix_join (''/etc'' # ps @ [''native-messaging-hosts'', HOST_NAME @ ''.json'']))"
      if "list_all (plain_segment is_slash) ps" for ps
      using posix_path_shapeI [OF lin(1) _ that _ sfx h, of "''/etc''"] lin
      by (simp add: table_root_def)
    have "getSystemManifestPathForBrowser HOST_NAME env b =
        posix_join (''/etc'' # (if b = ''chromium'' then [''chromium''] else [''opt'', ''chrome''])
          @ [''native-messaging-hosts'', HOST_NAME @ ''.json''])"
      using lin by (simp add: getSystemManifestPathForBrowser_def path_join_def Let_def)
    then show ?thesis using A by simp
  qed
qed


section \<open>Resolving joined paths\<close>

lemma split_on_all_no_sep: "list_all (no_sep P) (split_on P s)"
proof (induction s)
  case Nil
  then show ?case by (simp add: no_sep_def)
next
  case (Cons c s)
  then show ?case
    by (cases "split_on P s") (auto simp: no_sep_def split_on_not_Nil)
qed

lemma foldl_norm_step_False_plain:
  "list_all (plain_segment P) res \<Longrightarrow> list_all (no_sep P) segs \<Longrightarrow>
   list_all (plain_segment P) (foldl (norm_step False) res segs)"
proof (induction segs arbitrary: res)
  case Nil
  then show ?case by simp
next
  case (Cons s segs)
  have bl: "list_all (plain_segment P) (butlast res)"
    using Cons.prems(1) by (auto simp: list_all_iff dest: in_set_butlastD)
  have s: "s \<noteq> [] \<Longrightarrow> s \<noteq> ''.'' \<Longrightarrow> s \<noteq> ''..'' \<Longrightarrow> plain_segment P s"
    using Cons.prems(2) by (simp add: plain_segment_def)
  have "list_all (plain_segment P) (norm_step False res s)"
    unfolding norm_step_def using Cons.prems(1) bl s by auto
  then show ?case using Cons by simp
qed

lemma normalizeString_False_plain:
  "list_all (plain_segment P) (normalizeString False (split_on P s))"
  unfolding normalizeString_def
  by (rule foldl_norm_step_False_plain) (simp_all add: split_on_all_no_sep)

lemma split_on_concat_sep:
  "P c \<Longrightarrow> list_all (no_sep P) ns \<Longrightarrow> no_sep P n \<Longrightarrow>
   split_on P (concat (map (\<lambda>s. s @ [c]) ns) @ n) = ns @ [n]"
proof (induction ns)
  case Nil
  then show ?case by (simp add: split_on_no_sep)
next
  case (Cons s ns)
  have "split_on P (s @ c # (concat (map (\<lambda>s. s @ [c]) ns) @ n)) =
        split_on P s @ split_on P (concat (map (\<lambda>s. s @ [c]) ns) @ n)"
    using Cons.prems(1) by (rule split_on_append_sep)
  then show ?case using Cons by (simp add: split_on_no_sep)
qed

lemma resolve_absolute:
  "posix_isAbsolute t \<Longrightarrow> resolve fs t = normalizeString False (split_on is_slash t)"
  by (simp add: resolve_def)

lemma resolve_posix_join:
  assumes t: "posix_isAbsolute t" and n: "plain_segment is_slash n"
  shows "resolve fs (posix_join [t, n]) = resolve fs t @ [n]"
proof -
  let ?N = "normalizeString False (split_on is_slash t)"
  have tne: "t \<noteq> []" and hd: "is_slash (hd t)"
    using t by (simp_all add: posix_isAbsolute_def)
  have plainN: "list_all (plain_segment is_slash) ?N"
    by (rule normalizeString_False_plain)
  have j: "posix_join [t, n] = CHR ''/'' # concat (map (\<lambda>s. s @ ''/'') ?N) @ n"
    using posix_join_dir [OF tne, of "[n]"] n hd by (simp add: posix_dir_def)
  have abs: "posix_isAbsolute (posix_join [t, n])"
    unfolding j by (simp add: posix_isAbsolute_def is_slash_def)
  have "split_on is_slash (posix_join [t, n]) = [] # (?N @ [n])"
    unfolding j
    using split_on_concat_sep [of is_slash "CHR ''/''" ?N n] plain_segment_no_sep [OF plainN] n
    by (simp add: is_slash_def plain_segment_def)
  then have "resolve fs (posix_join [t, n]) = foldl (norm_step False) [] (?N @ [n])"
    using abs by (simp add: resolve_def normalizeString_def norm_step_def)
  also have "\<dots> = ?N @ [n]"
    using foldl_norm_step_plain [of is_slash "?N @ [n]" False "[]"] plainN n by simp
  finally show ?thesis using t by (simp add: resolve_absolute)
qed


section \<open>Manifest path resolution\<close>

lemma linux_env_ok: "env_ok linux_env UserTier"
  by (simp add: env_ok_def linux_env_def posix_isAbsolute_def is_slash_def)

lemma host_ok: "host_name_ok ''com.chromemcp.nativehost''"
  by (simp add: host_name_ok_def no_sep_def is_win32_sep_def backslash_def)

lemma windows_env_ok: "env_ok windows_env UserTier" "env_ok windows_env SystemTier"
  by code_simp+

lemma windows_paths:
  "manifest_path ''com.chromemcp.nativehost'' windows_env UserTier ''chromium'' =
     ''C:'' @ [backslash] @ ''Users'' @ [backslash] @ ''u'' @ [backslash] @ ''AppData''
       @ [backslash] @ ''Roaming'' @ [backslash] @ ''Chromium'' @ [backslash]
       @ ''NativeMessagingHosts'' @ [backslash] @ ''com.chromemcp.nativehost.json''"
  "manifest_path ''com.chromemcp.nativehost'' windows_env SystemTier ''chrome'' =
     ''C:'' @ [backslash] @ ''Program Files'' @ [backslash] @ ''Google'' @ [backslash] @ ''Chrome''
       @ [backslash] @ ''NativeMessagingHosts'' @ [backslash] @ ''com.chromemcp.nativehost.json''"
  "table_root windows_env SystemTier = ''C:'' @ [backslash] @ ''Program Files'' @ [backslash]"
  "hosts_suffix ''win32'' SystemTier ''com.chromemcp.nativehost'' =
     [backslash] @ ''NativeMessagingHosts'' @ [backslash] @ ''com.chromemcp.nativehost.json''"
  by code_simp+

text \<open>
  Claim C5. For every browser, tier and platform, the resolved manifest path is not empty, is
  absolute, ends in \<open>NativeMessagingHosts/<host>.json\<close> (with the separator of the platform;
  \<open>native-messaging-hosts/<host>.json\<close> for the system tier on Linux) and starts with the root
  of the platform table: \<open>%APPDATA%\<close> (or \<open>AppData\<close>, \<open>Roaming\<close> below the home directory) and \<open>%ProgramFiles%\<close> on
  Windows, \<open>~/Library/Application Support\<close> and \<open>/Library\<close> on macOS, \<open>~/.config\<close> and
  \<open>/etc\<close> on Linux. The directories the environment supplies for the tier are absolute
  (\<open>env_ok\<close>) and the host name contains no path separator (\<open>host_name_ok\<close>).
\<close>

theorem manifest_path_shape:
  assumes "env_ok env t" and "host_name_ok HOST_NAME"
  shows "manifest_path HOST_NAME env t b \<noteq> [] \<and>
         path_isAbsolute (platform env) (manifest_path HOST_NAME env t b) \<and>
         suffix (hosts_suffix (platform env) t HOST_NAME) (manifest_path HOST_NAME env t b) \<and>
         prefix (table_root env t) (manifest_path HOST_NAME env t b)"
proof (cases t)
  case UserTier
  then show ?thesis
    using getUser_shape [of env HOST_NAME b] assms
    by (simp add: manifest_path_def path_shape_def)
next
  case SystemTier
  then show ?thesis
    using getSystem_shape [of env HOST_NAME b] assms
    by (simp add: manifest_path_def path_shape_def)
qed

theorem manifest_path_shape_witness:
  "env_ok linux_env UserTier \<and> host_name_ok ''com.chromemcp.nativehost'' \<and>
   manifest_path ''com.chromemcp.nativehost'' linux_env UserTier ''chrome'' \<noteq> [] \<and>
   path_isAbsolute ''linux'' (manifest_path ''com.chromemcp.nativehost'' linux_env UserTier ''chrome'') \<and>
   suffix ''/NativeMessagingHosts/com.chromemcp.nativehost.json''
     (manifest_path ''com.chromemcp.nativehost'' linux_env UserTier ''chrome'') \<and>
   prefix ''/home/u/.config/''
     (manifest_path ''com.chromemcp.nativehost'' linux_env UserTier ''chrome'') \<and>
   env_ok windows_env SystemTier \<and>
   path_isAbsolute ''win32''
     (manifest_path ''com.chromemcp.nativehost'' windows_env SystemTier ''chrome'') \<and>
   suffix ([backslash] @ ''NativeMessagingHosts'' @ [backslash] @ ''com.chromemcp.nativehost.json'')
     (manifest_path ''com.chromemcp.nativehost'' windows_env SystemTier ''chrome'') \<and>
   prefix (''C:'' @ [backslash] @ ''Program Files'' @ [backslash])
     (manifest_path ''com.chromemcp.nativehost'' windows_env SystemTier ''chrome'')"
proof -
  have lin: "platform linux_env = ''linux''" and win: "platform windows_env = ''win32''"
    by (simp_all add: linux_env_def windows_env_def)
  have root: "table_root linux_env UserTier = ''/home/u/.config/''"
    "hosts_suffix ''linux'' UserTier ''com.chromemcp.nativehost'' =
       ''/NativeMessagingHosts/com.chromemcp.nativehost.json''"
    by code_simp+
  note a = manifest_path_shape [OF linux_env_ok host_ok, of "''chrome''", unfolded lin root]
  note b = manifest_path_shape [OF windows_env_ok(2) host_ok, of "''chrome''",
      unfolded win windows_paths(3,4)]
  show ?thesis
    using a b linux_env_ok host_ok windows_env_ok(2) by blast
qed

lemma posix_row:
  assumes r: "r \<noteq> []" and ps: "list_all (plain_segment is_slash) ps"
    and d: "plain_segment is_slash d" and h: "host_name_ok HOST_NAME"
  shows "posix_join (r # ps @ [d, HOST_NAME @ ''.json'']) =
           posix_dir r @ concat (map (\<lambda>s. s @ ''/'') ps) @ d @ ''/'' @ HOST_NAME @ ''.json''"
proof -
  have "list_all (plain_segment is_slash) (ps @ [d, HOST_NAME @ ''.json''])"
    using ps d host_json_plain(1) [OF h] by simp
  from posix_join_dir [OF r _ this] show ?thesis
    using intercalate_concat [of "[d, HOST_NAME @ ''.json'']" "''/''" ps] by simp
qed

lemma win32_row:
  assumes r: "win32_drive_absolute r" and ps: "list_all (plain_segment is_win32_sep) ps"
    and h: "host_name_ok HOST_NAME"
  shows "win32_join (r # ps @ [''NativeMessagingHosts'', HOST_NAME @ ''.json'']) =
           win32_dir r @ concat (map (\<lambda>s. s @ [backslash]) ps) @ ''NativeMessagingHosts''
             @ [backslash] @ HOST_NAME @ ''.json''"
proof -
  have "list_all (plain_segment is_win32_sep) (ps @ [''NativeMessagingHosts'', HOST_NAME @ ''.json''])"
    using ps host_json_plain(2) [OF h] by simp
  from win32_join_dir [OF r _ this] show ?thesis
    using intercalate_concat [of "[''NativeMessagingHosts'', HOST_NAME @ ''.json'']" "[backslash]" ps]
    by simp
qed

lemma appData_drive_absolute:
  assumes "platform env = ''win32''" "env_ok env UserTier"
  shows "win32_drive_absolute
           (or_else (APPDATA env) (win32_join [homedir env, ''AppData'', ''Roaming'']))"
proof (cases "truthy (APPDATA env)")
  case True
  then have "or_else (APPDATA env) (win32_join [homedir env, ''AppData'', ''Roaming'']) =
      or_else (APPDATA env) (homedir env)"
    by (auto simp: or_else_def truthy_def split: option.splits)
  then show ?thesis using assms by (simp add: env_ok_def)
next
  case False
  then have a: "or_else (APPDATA env) (win32_join [homedir env, ''AppData'', ''Roaming'']) =
      win32_join (homedir env # [] @ [''AppData'', ''Roaming''])"
    and "or_else (APPDATA env) (homedir env) = homedir env"
    by (auto simp: or_else_def truthy_def split: option.splits)
  then have "win32_drive_absolute (homedir env)"
    using assms by (simp add: env_ok_def)
  from win32_join_shape [OF this, of "[]" "''AppData''" "''Roaming''"] show ?thesis
    unfolding a by simp
qed

text \<open>
  Under the side conditions of C5 every resolved path is a row of the table: the row of
  Chromium for \<open>chromium\<close>, the row of Chrome for every other browser value.
\<close>

lemma manifest_path_row:
  assumes ok: "env_ok env t" and h: "host_name_ok HOST_NAME"
  shows "manifest_path HOST_NAME env t b =
           table_row HOST_NAME env t (if b = ''chromium'' then ''chromium'' else ''chrome'')"
proof -
  consider (win) "platform env = ''win32''"
    | (mac) "platform env \<noteq> ''win32''" "platform env = ''darwin''"
    | (lin) "platform env \<noteq> ''win32''" "platform env \<noteq> ''darwin''"
    by blast
  then show ?thesis
  proof cases
    case win
    show ?thesis
    proof (cases t)
      case UserTier
      have abs: "win32_drive_absolute
          (or_else (APPDATA env) (win32_join [homedir env, ''AppData'', ''Roaming'']))"
        using win ok UserTier by (simp add: appData_drive_absolute)
      show ?thesis
        using win UserTier win32_row [OF abs _ h, of "[''Google'', ''Chrome'']"]
          win32_row [OF abs _ h, of "[''Chromium'']"]
        by (simp add: manifest_path_def getUserManifestPathForBrowser_def path_join_def Let_def
            table_row_def table_root_def vendor_product_def hosts_suffix_def path_sep_def)
    next
      case SystemTier
      have abs: "win32_drive_absolute (or_else (ProgramFiles env) default_program_files)"
        using win ok SystemTier by (simp add: env_ok_def)
      show ?thesis
        using win SystemTier win32_row [OF abs _ h, of "[''Google'', ''Chrome'']"]
          win32_row [OF abs _ h, of "[''Chromium'']"]
        by (simp add: manifest_path_def getSystemManifestPathForBrowser_def path_join_def Let_def
            table_row_def table_root_def vendor_product_def hosts_suffix_def path_sep_def
            default_program_files_def)
    qed
  next
    case mac
    show ?thesis
    proof (cases t)
      case UserTier
      have r: "homedir env \<noteq> []"
        using mac ok UserTier by (auto simp: env_ok_def posix_isAbsolute_def)
      show ?thesis
        using mac UserTier
          posix_row [OF r _ _ h, of "[''Library'', ''Application Support'', ''Google'', ''Chrome'']"
            "''NativeMessagingHosts''"]
          posix_row [OF r _ _ h, of "[''Library'', ''Application Support'', ''Chromium'']"
            "''NativeMessagingHosts''"]
        by (simp add: manifest_path_def getUserManifestPathForBrowser_def path_join_def Let_def
            table_row_def table_root_def vendor_product_def hosts_suffix_def path_sep_def)
    next
      case SystemTier
      show ?thesis
        using mac SystemTier
          posix_row [OF _ _ _ h, of "''/Library''" "[''Google'', ''Chrome'']" "''NativeMessagingHosts''"]
          posix_row [OF _ _ _ h, of "''/Library''" "[''Application Support'', ''Chromium'']"
            "''NativeMessagingHosts''"]
        by (simp add: manifest_path_def getSystemManifestPathForBrowser_def path_join_def Let_def
            table_row_def table_root_def vendor_product_def hosts_suffix_def path_sep_def)
    qed
  next
    case lin
    show ?thesis
    proof (cases t)
      case UserTier
      have r: "homedir env \<noteq> []"
        using lin ok UserTier by (auto simp: env_ok_def posix_isAbsolute_def)
      show ?thesis
        using lin UserTier
          posix_row [OF r _ _ h, of "[''.config'', ''google-chrome'']" "''NativeMessagingHosts''"]
          posix_row [OF r _ _ h, of "[''.config'', ''chromium'']" "''NativeMessagingHosts''"]
        by (simp add: manifest_path_def getUserManifestPathForBrowser_def path_join_def Let_def
            table_row_def table_root_def vendor_product_def hosts_suffix_def path_sep_def)
    next
      case SystemTier
      show ?thesis
        using lin SystemTier
          posix_row [OF _ _ _ h, of "''/etc''" "[''opt'', ''chrome'']" "''native-messaging-hosts''"]
          posix_row [OF _ _ _ h, of "''/etc''" "[''chromium'']" "''native-messaging-hosts''"]
        by (simp add: manifest_path_def getSystemManifestPathForBrowser_def path_join_def Let_def
            table_row_def table_root_def vendor_product_def hosts_suffix_def path_sep_def)
    qed
  qed
qed

lemma table_row_chrome_not_chromium:
  "table_row HOST_NAME env t ''chrome'' \<noteq> table_row HOST_NAME env t ''chromium''"
  by (cases t) (simp_all add: table_row_def vendor_product_def path_sep_def backslash_def)

lemma table_row_not_Nil: "table_row HOST_NAME env t browser \<noteq> []"
  by (simp add: table_row_def hosts_suffix_def)

lemma example_rows:
  "table_row ''com.chromemcp.nativehost'' linux_env UserTier ''chrome'' =
     ''/home/u/.config/google-chrome/NativeMessagingHosts/com.chromemcp.nativehost.json''"
  "table_row ''com.chromemcp.nativehost'' linux_env SystemTier ''chrome'' =
     ''/etc/opt/chrome/native-messaging-hosts/com.chromemcp.nativehost.json''"
  "table_row ''com.chromemcp.nativehost'' mac_env SystemTier ''chrome'' =
     ''/Library/Google/Chrome/NativeMessagingHosts/com.chromemcp.nativehost.json''"
  "table_row ''com.chromemcp.nativehost'' windows_env UserTier ''chrome'' =
     ''C:'' @ [backslash] @ ''Users'' @ [backslash] @ ''u'' @ [backslash] @ ''AppData''
       @ [backslash] @ ''Roaming'' @ [backslash] @ ''Google'' @ [backslash] @ ''Chrome''
       @ [backslash] @ ''NativeMessagingHosts'' @ [backslash] @ ''com.chromemcp.nativehost.json''"
  by code_simp+

lemma example_envs_ok:
  "env_ok linux_env SystemTier" "env_ok mac_env SystemTier"
  by code_simp+

text \<open>
  Claim C6. A browser value that is neither \<open>chrome\<close> nor \<open>chromium\<close> resolves, in both tiers
  and on every platform, to what \<open>chrome\<close> resolves to. Where the directories of the
  environment are absolute and the host name has no separator, that is the Chrome row of the
  table (root, \<open>Google\<close> and \<open>Chrome\<close> or their Linux names, hosts directory, manifest file):
  a path, not empty, and different from the path of Chromium.
\<close>

theorem unknown_browser_resolves_as_chrome:
  assumes "b \<notin> set browser_types"
  shows "getUserManifestPathForBrowser HOST_NAME env b =
           getUserManifestPathForBrowser HOST_NAME env ''chrome'' \<and>
         getSystemManifestPathForBrowser HOST_NAME env b =
           getSystemManifestPathForBrowser HOST_NAME env ''chrome'' \<and>
         (env_ok env t \<and> host_name_ok HOST_NAME \<longrightarrow>
            manifest_path HOST_NAME env t b = table_row HOST_NAME env t ''chrome'' \<and>
            manifest_path HOST_NAME env t ''chrome'' = table_row HOST_NAME env t ''chrome'' \<and>
            manifest_path HOST_NAME env t b \<noteq> manifest_path HOST_NAME env t ''chromium'' \<and>
            manifest_path HOST_NAME env t b \<noteq> [])"
proof -
  have b: "b \<noteq> ''chrome''" "b \<noteq> ''chromium''"
    using assms by (simp_all add: browser_types_def)
  have same: "getUserManifestPathForBrowser HOST_NAME env b =
           getUserManifestPathForBrowser HOST_NAME env ''chrome''"
    "getSystemManifestPathForBrowser HOST_NAME env b =
           getSystemManifestPathForBrowser HOST_NAME env ''chrome''"
    using b
    by (simp_all add: getUserManifestPathForBrowser_def getSystemManifestPathForBrowser_def Let_def)
  have row: "manifest_path HOST_NAME env t b = table_row HOST_NAME env t ''chrome'' \<and>
            manifest_path HOST_NAME env t ''chrome'' = table_row HOST_NAME env t ''chrome'' \<and>
            manifest_path HOST_NAME env t b \<noteq> manifest_path HOST_NAME env t ''chromium'' \<and>
            manifest_path HOST_NAME env t b \<noteq> []"
    if ok: "env_ok env t" "host_name_ok HOST_NAME"
  proof -
    have 1: "manifest_path HOST_NAME env t b = table_row HOST_NAME env t ''chrome''"
      using manifest_path_row [OF ok, of b] b by simp
    have 2: "manifest_path HOST_NAME env t ''chrome'' = table_row HOST_NAME env t ''chrome''"
      using manifest_path_row [OF ok, of "''chrome''"] by simp
    have 3: "manifest_path HOST_NAME env t ''chromium'' = table_row HOST_NAME env t ''chromium''"
      using manifest_path_row [OF ok, of "''chromium''"] by simp
    show ?thesis
      unfolding 1 2 3 using table_row_chrome_not_chromium table_row_not_Nil by blast
  qed
  show ?thesis using same row by blast
qed

theorem unknown_browser_resolves_as_chrome_witness:
  "''firefox'' \<notin> set browser_types \<and>
   manifest_path ''com.chromemcp.nativehost'' linux_env UserTier ''firefox'' =
     ''/home/u/.config/google-chrome/NativeMessagingHosts/com.chromemcp.nativehost.json'' \<and>
   manifest_path ''com.chromemcp.nativehost'' linux_env SystemTier ''firefox'' =
     ''/etc/opt/chrome/native-messaging-hosts/com.chromemcp.nativehost.json'' \<and>
   manifest_path ''com.chromemcp.nativehost'' mac_env SystemTier ''firefox'' =
     ''/Library/Google/Chrome/NativeMessagingHosts/com.chromemcp.nativehost.json'' \<and>
   manifest_path ''com.chromemcp.nativehost'' windows_env UserTier ''firefox'' =
     ''C:'' @ [backslash] @ ''Users'' @ [backslash] @ ''u'' @ [backslash] @ ''AppData''
       @ [backslash] @ ''Roaming'' @ [backslash] @ ''Google'' @ [backslash] @ ''Chrome''
       @ [backslash] @ ''NativeMessagingHosts'' @ [backslash] @ ''com.chromemcp.nativehost.json'' \<and>
   manifest_path ''com.chromemcp.nativehost'' linux_env UserTier ''firefox'' \<noteq>
     manifest_path ''com.chromemcp.nativehost'' linux_env UserTier ''chromium''"
proof -
  have f: "''firefox'' \<notin> set browser_types"
    by (simp add: browser_types_def)
  note u = unknown_browser_resolves_as_chrome [OF f, of "''com.chromemcp.nativehost''"]
  show ?thesis
    using u [of linux_env UserTier] u [of linux_env SystemTier] u [of mac_env SystemTier]
      u [of windows_env UserTier]
      linux_env_ok example_envs_ok windows_env_ok(1) host_ok f
    unfolding example_rows by blast
qed


section \<open>The request handler\<close>

lemma caught_not_Undefined_download: "fst (caught (downloadFile h fs u n)) \<noteq> Undefined"
  by (auto simp: caught_def downloadFile_def Let_def split: sum.splits)

lemma caught_not_Undefined_save: "fst (caught (saveBase64File h fs d n)) \<noteq> Undefined"
  by (auto simp: caught_def saveBase64File_def Let_def split: sum.splits)

lemma caught_not_Undefined_verify: "fst (caught (verifyFile fs p, fs')) \<noteq> Undefined"
  by (auto simp: caught_def verifyFile_def Let_def split: sum.splits)

lemma cleanupFile_not_Undefined: "fst (cleanupFile h fs p) \<noteq> Undefined"
  by (auto simp: cleanupFile_def split: option.splits sum.splits)

lemma handleFileRequest_undefined_iff:
  "(fst (handleFileRequest h fs req) = Undefined) =
     (action req = Some ''prepareFile'' \<and> \<not> truthy (fileUrl req) \<and>
      \<not> truthy (base64Data req) \<and> \<not> truthy (filePath req))"
  using caught_not_Undefined_download caught_not_Undefined_save caught_not_Undefined_verify
    cleanupFile_not_Undefined
  by (simp add: handleFileRequest_def)

text \<open>
  Claim C10. A \<open>prepareFile\<close> request without \<open>fileUrl\<close>, \<open>base64Data\<close> and \<open>filePath\<close>
  resolves to \<open>undefined\<close>, and the file system is left as it was. The handler resolves to
  \<open>undefined\<close> for no other request: exactly when the action is \<open>prepareFile\<close> and none of the
  three fields is truthy (absent, or the empty string). When several sources are given,
  \<open>fileUrl\<close> decides the result whatever the other two are, and without it \<open>base64Data\<close>
  decides whatever \<open>filePath\<close> is.
\<close>

theorem prepareFile_sources:
  "(action req = Some ''prepareFile'' \<and> fileUrl req = None \<and> base64Data req = None \<and>
      filePath req = None \<longrightarrow> handleFileRequest h fs req = (Undefined, fs)) \<and>
   (fst (handleFileRequest h fs req) = Undefined) =
     (action req = Some ''prepareFile'' \<and> \<not> truthy (fileUrl req) \<and>
      \<not> truthy (base64Data req) \<and> \<not> truthy (filePath req)) \<and>
   (action req = Some ''prepareFile'' \<and> truthy (fileUrl req) \<longrightarrow>
      handleFileRequest h fs req = handleFileRequest h fs (req\<lparr>base64Data := None, filePath := None\<rparr>)) \<and>
   (action req = Some ''prepareFile'' \<and> \<not> truthy (fileUrl req) \<and> truthy (base64Data req) \<longrightarrow>
      handleFileRequest h fs req = handleFileRequest h fs (req\<lparr>filePath := None\<rparr>))"
  using handleFileRequest_undefined_iff [of h fs req]
  by (auto simp: handleFileRequest_def truthy_def)

theorem prepareFile_sources_witness:
  "handleFileRequest host0 fs0 (bare_request ''prepareFile'') = (Undefined, fs0) \<and>
   handleFileRequest host0 fs0
     ((bare_request ''prepareFile'')
        \<lparr>fileUrl := Some ''http://h/x.png'', base64Data := Some ''AAAA'', filePath := Some ''/etc/passwd''\<rparr>)
     = handleFileRequest host0 fs0 ((bare_request ''prepareFile'')\<lparr>fileUrl := Some ''http://h/x.png''\<rparr>) \<and>
   fst (handleFileRequest host0 fs0
     ((bare_request ''prepareFile'')
        \<lparr>fileUrl := Some ''http://h/x.png'', base64Data := Some ''AAAA'', filePath := Some ''/etc/passwd''\<rparr>))
     = Failed ''Failed to download file from URL: Error: network unreachable''"
  using prepareFile_sources [of "bare_request ''prepareFile''" host0 fs0]
    prepareFile_sources [of "(bare_request ''prepareFile'')
        \<lparr>fileUrl := Some ''http://h/x.png'', base64Data := Some ''AAAA'', filePath := Some ''/etc/passwd''\<rparr>" host0 fs0]
  by (simp add: bare_request_def truthy_def handleFileRequest_def caught_def downloadFile_def
      host0_def template_of_def)

text \<open>
  Claim C3. The handler does not return a structured result for every request: a
  \<open>prepareFile\<close> request that names no source leaves the \<open>switch\<close> through \<open>break\<close> and the
  handler resolves to \<open>undefined\<close>, on every host and file system.
\<close>

theorem prepareFile_without_source_returns_undefined:
  "handleFileRequest h fs (bare_request ''prepareFile'') = (Undefined, fs) \<and>
   success (fst (handleFileRequest h fs (bare_request ''prepareFile''))) = None"
  by (simp add: handleFileRequest_def bare_request_def truthy_def)

theorem prepareFile_without_source_returns_undefined_witness:
  "handleFileRequest host0 fs0
     \<lparr>action = Some ''prepareFile'', fileUrl = None, base64Data = None, fileName = None,
      filePath = None\<rparr> = (Undefined, fs0)"
  using prepareFile_without_source_returns_undefined [of host0 fs0]
  by (simp add: bare_request_def)

text \<open>
  Every other request gets a structured result, and an action that is neither
  \<open>prepareFile\<close> nor \<open>cleanupFile\<close> is answered with a failure that names it.
\<close>

theorem unknown_action_is_structured_failure:
  assumes "action req \<noteq> Some ''prepareFile''" "action req \<noteq> Some ''cleanupFile''"
  shows "handleFileRequest h fs req = (Failed (''Unknown file action: '' @ template_of (action req)), fs)"
  using assms by (simp add: handleFileRequest_def)


theorem unknown_action_is_structured_failure_witness:
  "handleFileRequest host0 fs0 (bare_request ''uploadFile'') =
     (Failed ''Unknown file action: uploadFile'', fs0) \<and>
   handleFileRequest host0 fs0 ((bare_request ''x'')\<lparr>action := None\<rparr>) =
     (Failed ''Unknown file action: undefined'', fs0)"
  using unknown_action_is_structured_failure [of "bare_request ''uploadFile''" host0 fs0]
    unknown_action_is_structured_failure [of "(bare_request ''x'')\<lparr>action := None\<rparr>" host0 fs0]
  by (simp add: bare_request_def template_of_def)

theorem handleFileRequest_structured:
  "(\<exists>b. success (fst (handleFileRequest h fs req)) = Some b) =
     (\<not> (action req = Some ''prepareFile'' \<and> \<not> truthy (fileUrl req) \<and>
      \<not> truthy (base64Data req) \<and> \<not> truthy (filePath req)))"
  using handleFileRequest_undefined_iff [of h fs req]
  by (cases "fst (handleFileRequest h fs req)") auto


theorem handleFileRequest_structured_witness:
  "success (fst (handleFileRequest host0 fs0 (bare_request ''cleanupFile''))) = Some False \<and>
   success (fst (handleFileRequest host0 fs0 (bare_request ''prepareFile''))) = None"
proof -
  have "fst (handleFileRequest host0 fs0 (bare_request ''cleanupFile'')) \<noteq> Cleaned m" for m
    by (simp add: handleFileRequest_def bare_request_def cleanupFile_def)
  moreover have "fst (handleFileRequest host0 fs0 (bare_request ''cleanupFile'')) \<noteq> Staged a b c" for a b c
    by (simp add: handleFileRequest_def bare_request_def cleanupFile_def)
  ultimately show ?thesis
    using handleFileRequest_structured [of host0 fs0 "bare_request ''cleanupFile''"]
      handleFileRequest_structured [of host0 fs0 "bare_request ''prepareFile''"]
    by (cases "fst (handleFileRequest host0 fs0 (bare_request ''cleanupFile''))";
        cases "fst (handleFileRequest host0 fs0 (bare_request ''prepareFile''))")
       (auto simp: bare_request_def truthy_def)
qed

section \<open>Verifying an existing path\<close>

lemma verifyFile_ok:
  assumes "lookup fs p = Some n" "kind n = RegularFile" "readable n"
  shows "verifyFile fs p = Inr (Staged p (posix_basename p) (size_of n))"
  using assms
  by (simp add: verifyFile_def existsSync_def statSync_def isFile_def accessSync_R_OK_def)

lemma verifyFile_missing:
  assumes "\<not> existsSync fs p"
  shows "verifyFile fs p = Inl (Error (''Failed to verify file: Error: File does not exist: '' @ p))"
  using assms by (simp add: verifyFile_def)

lemma verifyFile_fails:
  assumes "\<not> is_readable_regular_file fs p"
  shows "\<exists>m. verifyFile fs p = Inl (Error (''Failed to verify file: '' @ m))"
  using assms
  by (auto simp: verifyFile_def is_readable_regular_file_def existsSync_def statSync_def
      isFile_def accessSync_R_OK_def Let_def split: option.splits)

text \<open>
  Claim C8. A \<open>prepareFile\<close> request whose only source is a path leaves the file system as it
  was. It succeeds exactly when the path leads to a readable regular file, and then returns
  the path as given, its last component and the size of the file. Otherwise the result is a
  failure whose message starts with \<open>Failed to verify file:\<close>; for a path that does not exist
  the message says so.
\<close>

theorem existing_path_is_verified_in_place:
  assumes "action req = Some ''prepareFile''" "\<not> truthy (fileUrl req)"
    "\<not> truthy (base64Data req)" "filePath req = Some p" "p \<noteq> []"
  shows "snd (handleFileRequest h fs req) = fs \<and>
         success (fst (handleFileRequest h fs req)) = Some (is_readable_regular_file fs p) \<and>
         (is_readable_regular_file fs p \<longrightarrow>
            (\<exists>n. lookup fs p = Some n \<and>
                 fst (handleFileRequest h fs req) = Staged p (posix_basename p) (size_of n))) \<and>
         (\<not> is_readable_regular_file fs p \<longrightarrow>
            (\<exists>m. fst (handleFileRequest h fs req) = Failed (''Failed to verify file: '' @ m))) \<and>
         (\<not> existsSync fs p \<longrightarrow>
            fst (handleFileRequest h fs req) =
              Failed (''Failed to verify file: Error: File does not exist: '' @ p))"
proof -
  have eq: "handleFileRequest h fs req = caught (verifyFile fs p, fs)"
    using assms by (simp add: handleFileRequest_def truthy_def template_of_def)
  show ?thesis
  proof (cases "is_readable_regular_file fs p")
    case True
    then obtain n where n: "lookup fs p = Some n" "kind n = RegularFile" "readable n"
      by (auto simp: is_readable_regular_file_def split: option.splits)
    have "existsSync fs p" using n by (simp add: existsSync_def)
    then show ?thesis
      using True n verifyFile_ok [OF n] by (simp add: eq caught_def)
  next
    case False
    from verifyFile_fails [OF False] obtain m where
      m: "verifyFile fs p = Inl (Error (''Failed to verify file: '' @ m))" by blast
    show ?thesis
      using False m verifyFile_missing [of fs p] by (auto simp: eq caught_def)
  qed
qed

theorem existing_path_is_verified_in_place_witness:
  "handleFileRequest host0 fs0 ((bare_request ''prepareFile'')\<lparr>filePath := Some ''/etc/passwd''\<rparr>)
     = (Staged ''/etc/passwd'' ''passwd'' 4, fs0) \<and>
   handleFileRequest host0 fs0 ((bare_request ''prepareFile'')\<lparr>filePath := Some ''/etc/shadow''\<rparr>)
     = (Failed ''Failed to verify file: Error: File does not exist: /etc/shadow'', fs0) \<and>
   (\<exists>m. fst (handleFileRequest host0 fs0 ((bare_request ''prepareFile'')\<lparr>filePath := Some ''/etc''\<rparr>))
     = Failed (''Failed to verify file: '' @ m))"
proof -
  have look: "lookup fs0 ''/etc/passwd'' = Some (file_node 0 [114, 111, 111, 116])"
    "lookup fs0 ''/etc/shadow'' = None" "lookup fs0 ''/etc'' = Some dir_node"
    by (simp_all add: lookup_def resolve_def fs0_def posix_isAbsolute_def is_slash_def
        normalizeString_def norm_step_def)
  have a: "is_readable_regular_file fs0 ''/etc/passwd''"
    and b: "\<not> existsSync fs0 ''/etc/shadow''" "\<not> is_readable_regular_file fs0 ''/etc/shadow''"
    and c: "\<not> is_readable_regular_file fs0 ''/etc''"
    using look by (simp_all add: is_readable_regular_file_def existsSync_def file_node_def dir_node_def)
  have base: "posix_basename ''/etc/passwd'' = ''passwd''"
    by (simp add: posix_basename_def is_slash_def)
  show ?thesis
    using existing_path_is_verified_in_place
        [of "(bare_request ''prepareFile'')\<lparr>filePath := Some ''/etc/passwd''\<rparr>" "''/etc/passwd''" host0 fs0]
      existing_path_is_verified_in_place
        [of "(bare_request ''prepareFile'')\<lparr>filePath := Some ''/etc/shadow''\<rparr>" "''/etc/shadow''" host0 fs0]
      existing_path_is_verified_in_place
        [of "(bare_request ''prepareFile'')\<lparr>filePath := Some ''/etc''\<rparr>" "''/etc''" host0 fs0]
      a b c look base
    by (auto simp: bare_request_def truthy_def prod_eq_iff size_of_def file_node_def)
qed

section \<open>Cleaning up one file\<close>

lemma startsWith_append: "startsWith (t @ s) t"
  by (simp add: startsWith_def)

lemma resolve_below:
  assumes t: "posix_isAbsolute t" and n: "plain_segment is_slash n"
  shows "resolve fs (t @ ''/'' @ n) = resolve fs t @ [n]"
proof -
  have abs: "posix_isAbsolute (t @ ''/'' @ n)"
    using t by (cases t) (simp_all add: posix_isAbsolute_def)
  have "split_on is_slash (t @ CHR ''/'' # n) = split_on is_slash t @ split_on is_slash n"
    by (rule split_on_append_sep) (simp add: is_slash_def)
  moreover have "split_on is_slash n = [n]"
    using n by (simp add: plain_segment_def split_on_no_sep)
  ultimately show ?thesis
    using t abs normalizeString_append_plain [of is_slash "[n]" False "split_on is_slash t"] n
    by (simp add: resolve_def)
qed

text \<open>
  A path made of the temporary directory, a slash and a file name starts with the text of
  the directory and leads below it.
\<close>

lemma file_in_root_is_descendant:
  assumes "posix_isAbsolute t" "plain_segment is_slash n"
  shows "startsWith (t @ ''/'' @ n) t \<and> is_descendant fs t (t @ ''/'' @ n)"
  using resolve_below [OF assms, of fs]
  by (simp add: startsWith_append is_descendant_def)

text \<open>
  Claim C9, as amended. For a path that leads below the temporary directory, whose text
  starts with the text of the temporary directory, and that does not exist, cleanup succeeds
  and the file system is left as it was.
\<close>

theorem cleanup_of_missing_path_is_noop:
  assumes "is_descendant fs (tempDir h) p" and "startsWith p (tempDir h)"
    and "\<not> existsSync fs p"
    and "action req = Some ''cleanupFile''" and "filePath req = Some p"
  shows "cleanupFile h fs (Some p) = (Cleaned ''File cleaned up successfully'', fs) \<and>
         handleFileRequest h fs req = (Cleaned ''File cleaned up successfully'', fs)"
  using assms by (simp add: cleanupFile_def handleFileRequest_def)

theorem cleanup_of_missing_path_is_noop_witness:
  "is_descendant fs0 (tempDir host0) ''/tmp/chrome-mcp-uploads/gone.bin'' \<and>
   startsWith ''/tmp/chrome-mcp-uploads/gone.bin'' (tempDir host0) \<and>
   \<not> existsSync fs0 ''/tmp/chrome-mcp-uploads/gone.bin'' \<and>
   handleFileRequest host0 fs0
     ((bare_request ''cleanupFile'')\<lparr>filePath := Some ''/tmp/chrome-mcp-uploads/gone.bin''\<rparr>)
     = (Cleaned ''File cleaned up successfully'', fs0)"
proof -
  have d: "is_descendant fs0 (tempDir host0) ''/tmp/chrome-mcp-uploads/gone.bin''"
    by code_simp
  have a: "startsWith ''/tmp/chrome-mcp-uploads/gone.bin'' (tempDir host0)"
    by (simp add: startsWith_def host0_def)
  have b: "\<not> existsSync fs0 ''/tmp/chrome-mcp-uploads/gone.bin''"
    by code_simp
  show ?thesis
    using cleanup_of_missing_path_is_noop [OF d a b,
        of "(bare_request ''cleanupFile'')\<lparr>filePath := Some ''/tmp/chrome-mcp-uploads/gone.bin''\<rparr>"]
      d a b
    by (simp add: bare_request_def)
qed

text \<open>
  Claim C9 as stated fails: \<open>/tmp/./chrome-mcp-uploads/gone.bin\<close> leads below the temporary
  directory and does not exist, and cleanup answers with a failure.
\<close>

theorem cleanup_refuses_dotted_path_in_root:
  "resolve fs0 dotted_path = [''tmp'', ''chrome-mcp-uploads'', ''gone.bin''] \<and>
   is_descendant fs0 (tempDir host0) dotted_path \<and>
   \<not> existsSync fs0 dotted_path \<and>
   handleFileRequest host0 fs0 ((bare_request ''cleanupFile'')\<lparr>filePath := Some dotted_path\<rparr>)
     = (Failed ''Can only cleanup files in temp directory'', fs0)"
  by code_simp

text \<open>
  Claim C1. The test that guards the deletion compares strings: a path that starts with the
  text of the temporary directory passes, wherever it leads. Any unlocked regular file whose
  path is written that way is deleted.
\<close>

theorem cleanupFile_gate_is_a_string_prefix:
  assumes "startsWith p (tempDir h)" "lookup fs p = Some n" "kind n = RegularFile" "\<not> locked n"
  shows "cleanupFile h fs (Some p) =
           (Cleaned ''File cleaned up successfully'',
            fs\<lparr>nodes := filter (\<lambda>e. fst e \<noteq> resolve fs p) (nodes fs)\<rparr>)"
  using assms by (simp add: cleanupFile_def existsSync_def unlinkSync_def)

text \<open>
  With the temporary directory \<open>/tmp/chrome-mcp-uploads\<close>, the path
  \<open>/tmp/chrome-mcp-uploads/../../etc/passwd\<close> passes the test, leads to \<open>/etc/passwd\<close>, which
  is not below the temporary directory, and the file is deleted.
\<close>

theorem cleanupFile_traversal_deletes_outside_root:
  "startsWith traversal_path (tempDir host0) \<and>
   resolve fs0 traversal_path = [''etc'', ''passwd''] \<and>
   \<not> is_descendant fs0 (tempDir host0) traversal_path \<and>
   existsSync fs0 ''/etc/passwd'' \<and>
   fst (cleanupFile host0 fs0 (Some traversal_path)) = Cleaned ''File cleaned up successfully'' \<and>
   \<not> existsSync (snd (cleanupFile host0 fs0 (Some traversal_path))) ''/etc/passwd''"
proof -
  have r: "resolve fs0 traversal_path = [''etc'', ''passwd'']"
    "resolve fs0 ''/etc/passwd'' = [''etc'', ''passwd'']"
    "resolve fs0 (tempDir host0) = [''tmp'', ''chrome-mcp-uploads'']"
    by (simp_all add: traversal_path_def resolve_def fs0_def host0_def posix_isAbsolute_def
        is_slash_def normalizeString_def norm_step_def)
  have a: "startsWith traversal_path (tempDir host0)"
    by (simp add: startsWith_def traversal_path_def host0_def)
  have l: "lookup fs0 traversal_path = Some (file_node 0 [114, 111, 111, 116])"
    "lookup fs0 ''/etc/passwd'' = Some (file_node 0 [114, 111, 111, 116])"
    unfolding lookup_def r by (simp_all add: fs0_def)
  have k: "kind (file_node 0 [114, 111, 111, 116]) = RegularFile"
    "\<not> locked (file_node 0 [114, 111, 111, 116])"
    by (simp_all add: file_node_def)
  have gone: "\<not> existsSync (fs0\<lparr>nodes := filter (\<lambda>e. fst e \<noteq> [''etc'', ''passwd'']) (nodes fs0)\<rparr>) ''/etc/passwd''"
    by (simp add: existsSync_def lookup_def resolve_def fs0_def posix_isAbsolute_def
        is_slash_def normalizeString_def norm_step_def)
  show ?thesis
    using cleanupFile_gate_is_a_string_prefix [OF a l(1) k] a r l k gone
    by (simp add: is_descendant_def existsSync_def)
qed

text \<open>
  A path that does not start with the text of the temporary directory is refused.
\<close>

theorem cleanupFile_refuses_other_prefix:
  assumes "\<not> startsWith p (tempDir h)"
  shows "cleanupFile h fs (Some p) = (Failed ''Can only cleanup files in temp directory'', fs)"
  using assms by (simp add: cleanupFile_def)


theorem cleanupFile_refuses_other_prefix_witness:
  "\<not> startsWith ''/etc/passwd'' (tempDir host0) \<and>
   cleanupFile host0 fs0 (Some ''/etc/passwd'') =
     (Failed ''Can only cleanup files in temp directory'', fs0)"
proof -
  have h: "\<not> startsWith ''/etc/passwd'' (tempDir host0)"
    by (simp add: startsWith_def host0_def)
  show ?thesis
    using cleanupFile_refuses_other_prefix [OF h, of fs0] h by simp
qed


section \<open>The installation tier\<close>

lemma registrations_append: "registrations (xs @ ys) = registrations xs @ registrations ys"
  by (induction xs rule: registrations.induct) simp_all

lemma registrations_targetBrowsers: "registrations (fst (targetBrowsers opts p)) = []"
  by (simp add: targetBrowsers_def split: option.splits)

lemma registrations_isAdmin: "registrations (fst (isAdmin p)) = []"
  by (simp add: isAdmin_def split: sum.splits)

lemma hasElevatedPermissions_iff:
  "hasElevatedPermissions p =
     (getuid p = Some 0 \<or>
      (proc_platform p = ''win32'' \<and> (\<exists>v. is_admin p = Inr v \<and> truthy_value v)))"
  by (auto simp: hasElevatedPermissions_def isRoot_def isAdmin_def split: option.splits sum.splits)

lemma registrations_register_action:
  "registrations (register_action opts p) =
     (case snd (targetBrowsers opts p) of None \<Rightarrow> [] | Some targets \<Rightarrow> [installationTier opts p])"
  by (simp add: register_action_def installationTier_def registrations_append
      registrations_targetBrowsers registrations_isAdmin Let_def
      split: option.splits sum.splits)

text \<open>
  Claim C7. The tier does not follow the privileges of the process on Windows. The value of
  the administrator check is a promise, a promise is truthy, and so every Windows run whose
  check does not throw is taken for elevated: the tier is the system tier and the one
  registration call of the run is the elevated one, whatever the answer \<open>b\<close> of the check
  and without \<open>--system\<close>.
\<close>

theorem unawaited_admin_check_selects_system_tier:
  assumes "proc_platform p = ''win32''" and "is_admin p = Inr (JsPromise b)"
  shows "installationTier opts p = SystemTier \<and>
         registrations (register_action opts p) =
           (case snd (targetBrowsers opts p) of None \<Rightarrow> [] | Some targets \<Rightarrow> [SystemTier])"
proof -
  have "hasElevatedPermissions p"
    using assms by (simp add: hasElevatedPermissions_iff)
  then have "installationTier opts p = SystemTier"
    by (simp add: installationTier_def)
  then show ?thesis
    by (simp add: registrations_register_action split: option.splits)
qed

text \<open>
  A Windows process without administrator rights, run without \<open>--system\<close>, registers at the
  system tier.
\<close>

theorem unawaited_admin_check_selects_system_tier_witness:
  "\<not> opt_system plain_options \<and> getuid windows_plain_process = None \<and>
   proc_platform windows_plain_process = ''win32'' \<and>
   is_admin windows_plain_process = Inr (JsPromise False) \<and>
   installationTier plain_options windows_plain_process = SystemTier \<and>
   registrations (register_action plain_options windows_plain_process) = [SystemTier]"
proof -
  have p: "proc_platform windows_plain_process = ''win32''"
    "is_admin windows_plain_process = Inr (JsPromise False)"
    by (simp_all add: windows_plain_process_def)
  have t: "snd (targetBrowsers plain_options windows_plain_process) = Some None"
    by (simp add: targetBrowsers_def plain_options_def truthy_def)
  show ?thesis
    using unawaited_admin_check_selects_system_tier [OF p, of plain_options] p t
    by (simp add: plain_options_def windows_plain_process_def)
qed

text \<open>
  When the check throws, as \<open>require\<close> of an ES module does, the process counts as not
  elevated, whatever its rights are.
\<close>

lemma throwing_admin_check_selects_user_tier:
  assumes "proc_platform p = ''win32''" "is_admin p = Inl e" "\<not> opt_system opts"
    "getuid p \<noteq> Some 0"
  shows "installationTier opts p = UserTier"
  using assms by (simp add: installationTier_def hasElevatedPermissions_iff)

text \<open>
  Off Windows the tier is the system tier exactly when \<open>--system\<close> is set or the process is
  root, and a run makes exactly one registration call, at that tier; a run that stops at an
  invalid browser name makes none.
\<close>

theorem tier_off_windows:
  assumes "proc_platform p \<noteq> ''win32''"
  shows "(installationTier opts p = SystemTier) = (opt_system opts \<or> getuid p = Some 0) \<and>
         (installationTier opts p = UserTier) = (\<not> opt_system opts \<and> getuid p \<noteq> Some 0) \<and>
         registrations (register_action opts p) =
           (case snd (targetBrowsers opts p) of
              None \<Rightarrow> [] | Some targets \<Rightarrow> [installationTier opts p])"
  using assms
  by (simp add: installationTier_def hasElevatedPermissions_iff registrations_register_action)

theorem tier_off_windows_witness:
  "proc_platform root_process \<noteq> ''win32'' \<and>
   installationTier plain_options root_process = SystemTier \<and>
   installationTier plain_options (root_process\<lparr>getuid := Some 1000\<rparr>) = UserTier \<and>
   installationTier (plain_options\<lparr>opt_system := True\<rparr>) (root_process\<lparr>getuid := Some 1000\<rparr>)
     = SystemTier \<and>
   registrations (register_action plain_options root_process) = [SystemTier] \<and>
   registrations (register_action (plain_options\<lparr>opt_browser := Some ''netscape''\<rparr>) root_process)
     = []"
proof -
  have p: "proc_platform root_process \<noteq> ''win32''"
    "proc_platform (root_process\<lparr>getuid := Some 1000\<rparr>) \<noteq> ''win32''"
    by (simp_all add: root_process_def)
  show ?thesis
    using tier_off_windows [OF p(1), of plain_options]
      tier_off_windows [OF p(2), of plain_options]
      tier_off_windows [OF p(2), of "plain_options\<lparr>opt_system := True\<rparr>"]
      tier_off_windows [OF p(1), of "plain_options\<lparr>opt_browser := Some ''netscape''\<rparr>"]
      p(1)
    by (simp add: plain_options_def root_process_def targetBrowsers_def truthy_def
        template_of_def parseBrowserType_def browser_types_def toLowerCase_def lower_char_def)
qed


section \<open>Staging a download\<close>

lemma hex_digit_inj:
  assumes "a < 16" "b < 16" "hex_digit a = hex_digit b"
  shows "a = b"
proof -
  have "distinct ''0123456789abcdef''" by simp
  then show ?thesis
    using assms nth_eq_iff_index_eq [of "''0123456789abcdef''" a b]
    by (simp add: hex_digit_def)
qed

lemma hex_of_byte_inj:
  assumes "hex_of_byte a = hex_of_byte b"
  shows "a = b"
proof -
  have la: "unat a < 256" and lb: "unat b < 256"
    using unsigned_less [of a] unsigned_less [of b] by simp_all
  then have "unat a div 16 < 16" "unat b div 16 < 16" "unat a mod 16 < 16" "unat b mod 16 < 16"
    by simp_all
  then have "unat a div 16 = unat b div 16" "unat a mod 16 = unat b mod 16"
    using assms hex_digit_inj by (auto simp: hex_of_byte_def)
  then have "unat a = unat b"
    by (metis div_mult_mod_eq)
  then show ?thesis by (simp add: word_unat_eq_iff)
qed

lemma toString_hex_inj: "toString_hex xs = toString_hex ys \<Longrightarrow> xs = ys"
proof (induction xs arbitrary: ys)
  case Nil
  then show ?case by (cases ys) (simp_all add: toString_hex_def hex_of_byte_def)
next
  case (Cons x xs)
  then obtain y ys' where ys: "ys = y # ys'"
    by (cases ys) (simp_all add: toString_hex_def hex_of_byte_def)
  have "hex_of_byte x = hex_of_byte y" "toString_hex xs = toString_hex ys'"
    using Cons.prems unfolding ys by (simp_all add: toString_hex_def hex_of_byte_def)
  then show ?case using Cons.IH hex_of_byte_inj ys by simp
qed

lemma hex_digit_no_slash: "n < 16 \<Longrightarrow> \<not> is_slash (hex_digit n)"
proof -
  assume "n < 16"
  then have "hex_digit n \<in> set ''0123456789abcdef''"
    unfolding hex_digit_def by (intro nth_mem) simp
  then show ?thesis by (auto simp: is_slash_def)
qed

lemma toString_hex_no_slash: "no_sep is_slash (toString_hex bs)"
proof -
  have "\<not> is_slash (hex_digit (unat b div 16)) \<and> \<not> is_slash (hex_digit (unat b mod 16))" for b :: "8 word"
  proof -
    have "unat b < 256" using unsigned_less [of b] by simp
    then have "unat b div 16 < 16" "unat b mod 16 < 16" by simp_all
    then show ?thesis using hex_digit_no_slash by blast
  qed
  then show ?thesis
    by (induction bs) (simp_all add: toString_hex_def hex_of_byte_def no_sep_def)
qed

lemma posix_basename_no_slash: "no_sep is_slash (posix_basename p)"
  unfolding posix_basename_def no_sep_def list_all_iff
  by (auto dest: set_takeWhileD)

lemma posix_basename_plain: "no_sep is_slash b \<Longrightarrow> posix_basename b = b"
proof -
  assume "no_sep is_slash b"
  then have all: "\<forall>c \<in> set (rev b). \<not> is_slash c"
    by (simp add: no_sep_def list_all_iff)
  then have dw: "dropWhile is_slash (rev b) = rev b"
    by (cases "rev b") auto
  have tw: "takeWhile (\<lambda>c. \<not> is_slash c) (rev b) = rev b"
    using all by simp
  show ?thesis unfolding posix_basename_def dw tw by simp
qed

lemma split_at_last_dot:
  assumes "CHR ''.'' \<in> set b"
  shows "b = take (length b - length (takeWhile (\<lambda>c. c \<noteq> CHR ''.'') (rev b)) - 1) b
             @ CHR ''.'' # rev (takeWhile (\<lambda>c. c \<noteq> CHR ''.'') (rev b))"
proof -
  let ?a = "takeWhile (\<lambda>c. c \<noteq> CHR ''.'') (rev b)"
  let ?d = "dropWhile (\<lambda>c. c \<noteq> CHR ''.'') (rev b)"
  have "?d \<noteq> []" using assms by simp
  moreover have "\<not> (hd ?d \<noteq> CHR ''.'')"
    using calculation by (rule hd_dropWhile)
  ultimately obtain rest where d: "?d = CHR ''.'' # rest"
    by (cases ?d) auto
  have "rev b = ?a @ CHR ''.'' # rest"
    using takeWhile_dropWhile_id [of "\<lambda>c. c \<noteq> CHR ''.''" "rev b"] d by simp
  then have b: "b = rev rest @ CHR ''.'' # rev ?a"
    by (metis rev_append rev.simps(2) rev_rev_ident append.assoc append_Cons append_Nil)
  have "length b = length rest + 1 + length ?a"
    using arg_cong [OF b, of length] by simp
  then have "take (length b - length ?a - 1) b = rev rest"
    using b by (metis add_diff_cancel_right' append_eq_conv_conj length_rev)
  then show ?thesis using b by simp
qed

lemma name_ext_split:
  assumes "no_sep is_slash b"
  shows "posix_basename_ext b (posix_extname b) @ posix_extname b = b"
proof -
  have bb: "posix_basename b = b" using assms by (rule posix_basename_plain)
  show ?thesis
  proof (cases "posix_extname b = []")
    case True
    then show ?thesis by (simp add: posix_basename_ext_def bb)
  next
    case False
    let ?after = "rev (takeWhile (\<lambda>c. c \<noteq> CHR ''.'') (rev b))"
    let ?before = "take (length b - length ?after - 1) b"
    from False have dot: "CHR ''.'' \<in> set b" and before: "?before \<noteq> []"
      and ext: "posix_extname b = CHR ''.'' # ?after"
      by (auto simp: posix_extname_def bb Let_def split: if_splits)
    have b: "b = ?before @ CHR ''.'' # ?after"
      using split_at_last_dot [OF dot] by simp
    have len: "length b = length ?before + length (CHR ''.'' # ?after)"
      using arg_cong [OF b, of length] by (simp del: length_take)
    have neq: "CHR ''.'' # ?after \<noteq> b"
      using len before by (metis add_cancel_right_left length_0_conv)
    have suf: "suffix (CHR ''.'' # ?after) b"
      using b by (metis suffixI)
    have "take (length b - length (CHR ''.'' # ?after)) b = ?before"
      using b len by (metis add_diff_cancel_right' append_eq_conv_conj)
    then show ?thesis
      unfolding ext posix_basename_ext_def bb Let_def
      using neq suf len b by (simp del: length_take)
  qed
qed

lemma generateFileName_form:
  "generateFileName h (Some url) =
     (case usable_segment h url of
        None \<Rightarrow> ''upload-'' @ toString_hex (randomBytes h 8) @ ''.bin''
      | Some seg \<Rightarrow>
          posix_basename_ext seg (posix_extname seg) @ ''-'' @ toString_hex (randomBytes h 4)
            @ posix_extname seg)"
proof -
  have "posix_basename p \<noteq> ''/''" for p
    using posix_basename_no_slash [of p] by (auto simp: no_sep_def is_slash_def)
  then show ?thesis
    by (simp add: generateFileName_def usable_segment_def Let_def split: option.splits)
qed

lemma usable_segment_no_slash: "usable_segment h url = Some seg \<Longrightarrow> no_sep is_slash seg"
  using posix_basename_no_slash
  by (auto simp: usable_segment_def split: if_splits option.splits)

lemma no_sep_append: "no_sep P (a @ b) = (no_sep P a \<and> no_sep P b)"
  by (simp add: no_sep_def)

lemma dash_not_dots: "CHR ''-'' \<in> set n \<Longrightarrow> n \<noteq> [] \<and> n \<noteq> ''.'' \<and> n \<noteq> ''..''"
  by auto

lemma generateFileName_plain: "plain_segment is_slash (generateFileName h (Some url))"
proof (cases "usable_segment h url")
  case None
  then show ?thesis
    using toString_hex_no_slash [of "randomBytes h 8"]
    by (simp add: generateFileName_form plain_segment_def no_sep_append)
       (simp add: no_sep_def is_slash_def)
next
  case (Some seg)
  let ?name = "posix_basename_ext seg (posix_extname seg)"
  let ?ext = "posix_extname seg"
  let ?n = "?name @ ''-'' @ toString_hex (randomBytes h 4) @ ?ext"
  have "no_sep is_slash (?name @ ?ext)"
    using name_ext_split [OF usable_segment_no_slash [OF Some]] usable_segment_no_slash [OF Some]
    by simp
  then have ns: "no_sep is_slash ?n"
    using toString_hex_no_slash [of "randomBytes h 4"]
    by (simp add: no_sep_append) (simp add: no_sep_def is_slash_def)
  have "CHR ''-'' \<in> set ?n" by simp
  then have "?n \<noteq> [] \<and> ?n \<noteq> ''.'' \<and> ?n \<noteq> ''..''"
    by (rule dash_not_dots)
  then show ?thesis
    using ns Some by (simp add: generateFileName_form plain_segment_def)
qed

lemma generateFileName_distinct:
  assumes "url_pathname h2 = url_pathname h1"
    and "randomBytes h1 4 \<noteq> randomBytes h2 4" "randomBytes h1 8 \<noteq> randomBytes h2 8"
  shows "generateFileName h1 (Some url) \<noteq> generateFileName h2 (Some url)"
proof -
  have seg: "usable_segment h2 url = usable_segment h1 url"
    using assms(1) by (simp add: usable_segment_def)
  show ?thesis
  proof
    assume eq: "generateFileName h1 (Some url) = generateFileName h2 (Some url)"
    show False
    proof (cases "usable_segment h1 url")
      case None
      then have "''upload-'' @ toString_hex (randomBytes h1 8) @ ''.bin'' =
          ''upload-'' @ toString_hex (randomBytes h2 8) @ ''.bin''"
        using eq seg by (simp only: generateFileName_form option.case)
      then have "toString_hex (randomBytes h1 8) = toString_hex (randomBytes h2 8)"
        by (simp only: same_append_eq append_same_eq)
      then show False using assms(3) toString_hex_inj by blast
    next
      case (Some s)
      then have "posix_basename_ext s (posix_extname s) @ ''-'' @ toString_hex (randomBytes h1 4)
            @ posix_extname s =
          posix_basename_ext s (posix_extname s) @ ''-'' @ toString_hex (randomBytes h2 4)
            @ posix_extname s"
        using eq seg by (simp only: generateFileName_form option.case)
      then have "toString_hex (randomBytes h1 4) = toString_hex (randomBytes h2 4)"
        by (simp only: same_append_eq append_same_eq)
      then show False using assms(2) toString_hex_inj by blast
    qed
  qed
qed

lemma map_of_update_node:
  "map_of (update_node k n ns) k' = (if k' = k then Some n else map_of ns k')"
  by (induction ns) auto

lemma writeFileSync_lookup:
  assumes "writeFileSync fs now p buf = Inr fs'"
  shows "cwd fs' = cwd fs"
    and "lookup fs' p =
           Some \<lparr>kind = RegularFile, mtimeMs = now, content = buf, readable = True, locked = False\<rparr>"
    and "resolve fs q \<noteq> resolve fs p \<Longrightarrow> lookup fs' q = lookup fs q"
proof -
  from assms have fs': "fs' = fs\<lparr>nodes := update_node (resolve fs p)
      \<lparr>kind = RegularFile, mtimeMs = now, content = buf, readable = True, locked = False\<rparr>
      (nodes fs)\<rparr>"
    by (auto simp: writeFileSync_def Let_def split: if_splits)
  then show "cwd fs' = cwd fs" by simp
  have res: "resolve fs' x = resolve fs x" for x
    by (simp add: fs' resolve_def)
  show "lookup fs' p =
      Some \<lparr>kind = RegularFile, mtimeMs = now, content = buf, readable = True, locked = False\<rparr>"
    unfolding lookup_def res by (simp add: fs' map_of_update_node)
  show "resolve fs q \<noteq> resolve fs p \<Longrightarrow> lookup fs' q = lookup fs q"
    unfolding lookup_def res by (simp add: fs' map_of_update_node)
qed

lemma downloadFile_Staged:
  assumes "downloadFile h fs url nm = (Inr (Staged p n s), fs')" "\<not> truthy nm"
  shows "n = generateFileName h (Some url) \<and> p = posix_join [tempDir h, n] \<and>
         (\<exists>buf. writeFileSync fs (date_now h) p buf = Inr fs' \<and> s = length buf)"
  using assms
  by (auto simp: downloadFile_def Let_def split: sum.splits if_splits)

text \<open>
  Claim C4. Two downloads of one URL, neither with a name from the caller, whose random
  draws differ, get different file names and different paths. Each name is the last
  segment of the URL's path with \<open>-\<close> and eight hexadecimal digits put before its extension,
  or \<open>upload-\<close>, sixteen hexadecimal digits and \<open>.bin\<close> when the URL has no such segment.
  After the second download the file of the first is what the first wrote.
\<close>

theorem same_url_staged_twice:
  assumes parser: "url_pathname h2 = url_pathname h1"
    and dir: "tempDir h2 = tempDir h1" "posix_isAbsolute (tempDir h1)"
    and draws: "randomBytes h1 4 \<noteq> randomBytes h2 4" "randomBytes h1 8 \<noteq> randomBytes h2 8"
    and names: "\<not> truthy nm1" "\<not> truthy nm2"
    and first: "downloadFile h1 fs url nm1 = (Inr (Staged p1 n1 s1), fs1)"
    and second: "downloadFile h2 fs1 url nm2 = (Inr (Staged p2 n2 s2), fs2)"
  shows "n1 \<noteq> n2 \<and> p1 \<noteq> p2 \<and>
         n1 = (case usable_segment h1 url of
                 None \<Rightarrow> ''upload-'' @ toString_hex (randomBytes h1 8) @ ''.bin''
               | Some seg \<Rightarrow>
                   posix_basename_ext seg (posix_extname seg) @ ''-''
                     @ toString_hex (randomBytes h1 4) @ posix_extname seg) \<and>
         (\<forall>seg. usable_segment h1 url = Some seg \<longrightarrow>
            posix_basename_ext seg (posix_extname seg) @ posix_extname seg = seg) \<and>
         lookup fs2 p1 = lookup fs1 p1 \<and>
         (\<exists>nd. lookup fs2 p1 = Some nd \<and> kind nd = RegularFile \<and> size_of nd = s1)"
proof -
  from downloadFile_Staged [OF first names(1)] obtain buf1 where
    n1: "n1 = generateFileName h1 (Some url)" and p1: "p1 = posix_join [tempDir h1, n1]"
    and w1: "writeFileSync fs (date_now h1) p1 buf1 = Inr fs1" and s1: "s1 = length buf1"
    by blast
  from downloadFile_Staged [OF second names(2)] obtain buf2 where
    n2: "n2 = generateFileName h2 (Some url)" and p2: "p2 = posix_join [tempDir h1, n2]"
    and w2: "writeFileSync fs1 (date_now h2) p2 buf2 = Inr fs2"
    using dir(1) by auto
  have neq: "n1 \<noteq> n2"
    unfolding n1 n2 using parser draws by (rule generateFileName_distinct)
  have plain: "plain_segment is_slash n1" "plain_segment is_slash n2"
    unfolding n1 n2 by (rule generateFileName_plain)+
  have r1: "resolve fs1 p1 = resolve fs1 (tempDir h1) @ [n1]"
    unfolding p1 using dir(2) plain(1) by (rule resolve_posix_join)
  have r2: "resolve fs1 p2 = resolve fs1 (tempDir h1) @ [n2]"
    unfolding p2 using dir(2) plain(2) by (rule resolve_posix_join)
  have rneq: "resolve fs1 p1 \<noteq> resolve fs1 p2"
    unfolding r1 r2 using neq by simp
  then have pneq: "p1 \<noteq> p2" by auto
  have keep: "lookup fs2 p1 = lookup fs1 p1"
    using writeFileSync_lookup(3) [OF w2 rneq] .
  have there: "lookup fs1 p1 =
      Some \<lparr>kind = RegularFile, mtimeMs = date_now h1, content = buf1, readable = True,
            locked = False\<rparr>"
    using writeFileSync_lookup(2) [OF w1] .
  have split: "\<forall>seg. usable_segment h1 url = Some seg \<longrightarrow>
      posix_basename_ext seg (posix_extname seg) @ posix_extname seg = seg"
    using name_ext_split usable_segment_no_slash by blast
  have form: "n1 = (case usable_segment h1 url of
                 None \<Rightarrow> ''upload-'' @ toString_hex (randomBytes h1 8) @ ''.bin''
               | Some seg \<Rightarrow>
                   posix_basename_ext seg (posix_extname seg) @ ''-''
                     @ toString_hex (randomBytes h1 4) @ posix_extname seg)"
    unfolding n1 by (rule generateFileName_form)
  have "\<exists>nd. lookup fs2 p1 = Some nd \<and> kind nd = RegularFile \<and> size_of nd = s1"
    unfolding keep there s1 by (simp add: size_of_def)
  with neq pneq form split keep show ?thesis by blast
qed

text \<open>
  Two downloads of \<open>https://example.com/img/logo.png\<close>, run on the example file system.
\<close>

lemma stage_first:
  "downloadFile (web_host 0) fs0 ''https://example.com/img/logo.png'' None =
     (Inr (Staged ''/tmp/chrome-mcp-uploads/logo-00000000.png'' ''logo-00000000.png'' 3), staged_once)"
  by code_simp

lemma stage_second:
  "downloadFile (web_host 1) staged_once ''https://example.com/img/logo.png'' None =
     (Inr (Staged ''/tmp/chrome-mcp-uploads/logo-01010101.png'' ''logo-01010101.png'' 3), staged_twice)"
  by code_simp

theorem same_url_staged_twice_witness:
  "downloadFile (web_host 0) fs0 ''https://example.com/img/logo.png'' None =
     (Inr (Staged ''/tmp/chrome-mcp-uploads/logo-00000000.png'' ''logo-00000000.png'' 3), staged_once) \<and>
   downloadFile (web_host 1) staged_once ''https://example.com/img/logo.png'' None =
     (Inr (Staged ''/tmp/chrome-mcp-uploads/logo-01010101.png'' ''logo-01010101.png'' 3), staged_twice) \<and>
   ''logo-00000000.png'' \<noteq> ''logo-01010101.png'' \<and>
   lookup staged_twice ''/tmp/chrome-mcp-uploads/logo-00000000.png'' =
     lookup staged_once ''/tmp/chrome-mcp-uploads/logo-00000000.png'' \<and>
   (\<exists>nd. lookup staged_twice ''/tmp/chrome-mcp-uploads/logo-00000000.png'' = Some nd \<and>
         kind nd = RegularFile \<and> size_of nd = 3)"
proof -
  have parser: "url_pathname (web_host 1) = url_pathname (web_host 0)"
    by (simp add: web_host_def)
  have dir: "tempDir (web_host 1) = tempDir (web_host 0)" "posix_isAbsolute (tempDir (web_host 0))"
    by (simp_all add: web_host_def posix_isAbsolute_def is_slash_def)
  have draws: "randomBytes (web_host 0) 4 \<noteq> randomBytes (web_host 1) 4"
    "randomBytes (web_host 0) 8 \<noteq> randomBytes (web_host 1) 8"
    by (simp_all add: web_host_def)
  have names: "\<not> truthy None" by (simp add: truthy_def)
  note staged = same_url_staged_twice [OF parser dir draws names names stage_first stage_second]
  show ?thesis
    using staged stage_first stage_second by blast
qed


section \<open>Sweeping old files\<close>

lemma map_of_filter_other:
  "k' \<noteq> k \<Longrightarrow> map_of (filter (\<lambda>e. fst e \<noteq> k) ns) k' = map_of ns k'"
  by (induction ns) auto

lemma without_empty: "without fs {} = fs"
  by (simp add: without_def)

lemma without_insert:
  "without (fs\<lparr>nodes := filter (\<lambda>e. fst e \<noteq> k) (nodes fs)\<rparr>) ks = without fs (insert k ks)"
  by (auto simp: without_def intro: filter_cong)

text \<open>
  The loop on any list of distinct names: it works through the longest front part of the
  list whose entries neither fail at \<open>stat\<close> nor, when old, at \<open>unlink\<close>, removes the old
  ones among them, and ends with at most one logged error, which is there exactly when
  the front part is not the whole list.
\<close>

lemma cleanup_loop_outcome:
  assumes "posix_isAbsolute dir" "list_all (plain_segment is_slash) files" "distinct files"
  shows "\<exists>errs. cleanup_loop dir now files fs out =
           (without fs ((\<lambda>f. resolve fs dir @ [f]) ` set (deleted fs (resolve fs dir) now files)),
            out @ map (\<lambda>f. Log (''Cleaned up old temp file: '' @ f))
                    (deleted fs (resolve fs dir) now files) @ errs) \<and>
         length errs \<le> 1 \<and> list_all is_ConsoleError errs \<and>
         (errs = []) = (swept fs (resolve fs dir) now files = files)"
  using assms(2,3)
proof (induction files arbitrary: fs out)
  case Nil
  show ?case by (simp add: deleted_def swept_def without_empty)
next
  case (Cons f files)
  let ?T = "resolve fs dir"
  let ?p = "posix_join [dir, f]"
  have f: "plain_segment is_slash f" and files: "list_all (plain_segment is_slash) files"
    and nf: "f \<notin> set files" and dist: "distinct files"
    using Cons.prems by simp_all
  have key: "resolve fs ?p = ?T @ [f]"
    using assms(1) f by (rule resolve_posix_join)
  have look: "lookup fs ?p = map_of (nodes fs) (?T @ [f])"
    by (simp add: lookup_def key)
  show ?case
  proof (cases "passes fs ?T now f")
    case False
    then have sw: "swept fs ?T now (f # files) = []" "deleted fs ?T now (f # files) = []"
      by (simp_all add: swept_def deleted_def)
    from False have "\<exists>e. cleanup_loop dir now (f # files) fs out =
        (fs, out @ [ConsoleError ''Error cleaning up old files:'' e])"
      unfolding passes_def entry_fails_def is_old_def
      by (auto simp: statSync_def unlinkSync_def look Let_def split: option.splits)
    then show ?thesis
      unfolding sw by (auto simp: without_empty)
  next
    case True
    then obtain n where n: "map_of (nodes fs) (?T @ [f]) = Some n" and ok: "\<not> entry_fails now n"
      by (auto simp: passes_def split: option.splits)
    have stat: "statSync fs ?p = Inr n"
      using n ok by (simp add: statSync_def look entry_fails_def)
    show ?thesis
    proof (cases "is_old now n")
      case False
      have step: "cleanup_loop dir now (f # files) fs out = cleanup_loop dir now files fs out"
        using False stat by (simp add: is_old_def)
      have sw: "swept fs ?T now (f # files) = f # swept fs ?T now files"
        "deleted fs ?T now (f # files) = deleted fs ?T now files"
        using True False n by (simp_all add: swept_def deleted_def old_entry_def)
      from Cons.IH [OF files dist, of fs out] show ?thesis
        unfolding step sw by simp
    next
      case old: True
      let ?fs' = "fs\<lparr>nodes := filter (\<lambda>e. fst e \<noteq> ?T @ [f]) (nodes fs)\<rparr>"
      let ?out' = "out @ [Log (''Cleaned up old temp file: '' @ f)]"
      have unlink: "unlinkSync fs ?p = Inr ?fs'"
        using n ok old by (auto simp: unlinkSync_def look key entry_fails_def)
      have step: "cleanup_loop dir now (f # files) fs out = cleanup_loop dir now files ?fs' ?out'"
        using old stat unlink by (simp add: is_old_def)
      have T': "resolve ?fs' dir = ?T"
        by (simp add: resolve_def)
      have same: "map_of (filter (\<lambda>e. fst e \<noteq> ?T @ [f]) (nodes fs)) (?T @ [g]) =
          map_of (nodes fs) (?T @ [g])" if "g \<in> set files" for g
      proof -
        have "g \<noteq> f" using that nf by auto
        then have "?T @ [g] \<noteq> ?T @ [f]" by simp
        then show ?thesis by (simp add: map_of_filter_other)
      qed
      have sw': "swept ?fs' ?T now files = swept fs ?T now files"
        unfolding swept_def by (rule takeWhile_cong) (simp_all add: passes_def same)
      have "set (swept fs ?T now files) \<subseteq> set files"
        unfolding swept_def by (auto dest: set_takeWhileD)
      then have del': "deleted ?fs' ?T now files = deleted fs ?T now files"
        unfolding deleted_def sw' by (intro filter_cong) (auto simp: old_entry_def same)
      have sw: "swept fs ?T now (f # files) = f # swept fs ?T now files"
        "deleted fs ?T now (f # files) = f # deleted fs ?T now files"
        using True old n by (simp_all add: swept_def deleted_def old_entry_def)
      from Cons.IH [OF files dist, of ?fs' ?out'] show ?thesis
        unfolding step sw T' sw' del' by (simp add: without_insert)
    qed
  qed
qed

lemma readdirSync_listing:
  assumes "readdirSync fs p = Inr files"
  shows "files = map (\<lambda>e. last (fst e))
           (filter (\<lambda>e. fst e \<noteq> [] \<and> butlast (fst e) = resolve fs p) (nodes fs))"
  using assms by (auto simp: readdirSync_def Let_def split: if_splits option.splits)

lemma listing_wf:
  assumes wf: "wf_fs fs" and l: "readdirSync fs p = Inr files"
  shows "distinct files" and "list_all (plain_segment is_slash) files"
proof -
  let ?C = "filter (\<lambda>e. fst e \<noteq> [] \<and> butlast (fst e) = resolve fs p) (nodes fs)"
  have files: "files = map last (map fst ?C)"
    using readdirSync_listing [OF l] by simp
  have d: "distinct (map fst ?C)"
    using wf by (simp add: wf_fs_def distinct_map_filter)
  have inj: "inj_on last (set (map fst ?C))"
  proof (rule inj_onI)
    fix x y assume "x \<in> set (map fst ?C)" "y \<in> set (map fst ?C)" "last x = last y"
    then have "x \<noteq> []" "y \<noteq> []" "butlast x = butlast y" "last x = last y" by auto
    then show "x = y" by (metis append_butlast_last_id)
  qed
  show "distinct files"
    unfolding files using d inj distinct_map [of last "map fst ?C"] by blast
  have "plain_segment is_slash (last k)" if "(k, n) \<in> set (nodes fs)" "k \<noteq> []" for k n
  proof -
    have "list_all (plain_segment is_slash) k"
      using wf that(1) by (auto simp: wf_fs_def list_all_iff)
    then show ?thesis using that(2) by (simp add: list_all_iff)
  qed
  then show "list_all (plain_segment is_slash) files"
    unfolding files by (auto simp: list_all_iff)
qed

lemma cleanupOldFiles_outcome:
  assumes "wf_fs fs" "posix_isAbsolute (tempDir h)" "readdirSync fs (tempDir h) = Inr files"
  shows "\<exists>errs. cleanupOldFiles h fs =
           (without fs ((\<lambda>f. resolve fs (tempDir h) @ [f]) `
                set (deleted fs (resolve fs (tempDir h)) (date_now h) files)),
            map (\<lambda>f. Log (''Cleaned up old temp file: '' @ f))
              (deleted fs (resolve fs (tempDir h)) (date_now h) files) @ errs) \<and>
         length errs \<le> 1 \<and> list_all is_ConsoleError errs \<and>
         (errs = []) = (swept fs (resolve fs (tempDir h)) (date_now h) files = files)"
  using cleanup_loop_outcome [OF assms(2) listing_wf(2) [OF assms(1,3)] listing_wf(1) [OF assms(1,3)],
      of "date_now h" fs "[]"] assms(3)
  by (simp add: cleanupOldFiles_def)

text \<open>
  Claim C2, as amended. The sweep goes through the listing of the temporary directory in
  order and deletes each entry modified more than one hour before now, up to the first entry
  at which \<open>stat\<close> or \<open>unlink\<close> throws. That error is logged, not propagated, and ends the
  sweep: the entries after it stay as they are. When no entry fails, exactly the entries
  older than one hour are deleted. The file system has distinct keys made of plain path
  components and the temporary directory is an absolute path.
\<close>

theorem sweep_stops_at_first_error:
  assumes "wf_fs fs" "posix_isAbsolute (tempDir h)" "readdirSync fs (tempDir h) = Inr files"
  shows "(\<exists>errs. cleanupOldFiles h fs =
           (without fs ((\<lambda>f. resolve fs (tempDir h) @ [f]) `
                set (deleted fs (resolve fs (tempDir h)) (date_now h) files)),
            map (\<lambda>f. Log (''Cleaned up old temp file: '' @ f))
              (deleted fs (resolve fs (tempDir h)) (date_now h) files) @ errs) \<and>
         length errs \<le> 1 \<and> list_all is_ConsoleError errs \<and>
         (errs = []) = (swept fs (resolve fs (tempDir h)) (date_now h) files = files)) \<and>
        ((\<forall>f \<in> set files. passes fs (resolve fs (tempDir h)) (date_now h) f) \<longrightarrow>
           cleanupOldFiles h fs =
             (without fs ((\<lambda>f. resolve fs (tempDir h) @ [f]) `
                  {f \<in> set files. old_entry fs (resolve fs (tempDir h)) (date_now h) f}),
              map (\<lambda>f. Log (''Cleaned up old temp file: '' @ f))
                (filter (old_entry fs (resolve fs (tempDir h)) (date_now h)) files)))"
proof (intro conjI impI)
  show "\<exists>errs. cleanupOldFiles h fs =
           (without fs ((\<lambda>f. resolve fs (tempDir h) @ [f]) `
                set (deleted fs (resolve fs (tempDir h)) (date_now h) files)),
            map (\<lambda>f. Log (''Cleaned up old temp file: '' @ f))
              (deleted fs (resolve fs (tempDir h)) (date_now h) files) @ errs) \<and>
         length errs \<le> 1 \<and> list_all is_ConsoleError errs \<and>
         (errs = []) = (swept fs (resolve fs (tempDir h)) (date_now h) files = files)"
    using assms by (rule cleanupOldFiles_outcome)
next
  assume all: "\<forall>f \<in> set files. passes fs (resolve fs (tempDir h)) (date_now h) f"
  then have sw: "swept fs (resolve fs (tempDir h)) (date_now h) files = files"
    by (simp add: swept_def)
  then have del: "deleted fs (resolve fs (tempDir h)) (date_now h) files =
      filter (old_entry fs (resolve fs (tempDir h)) (date_now h)) files"
    by (simp add: deleted_def)
  have set: "set (filter (old_entry fs (resolve fs (tempDir h)) (date_now h)) files) =
      {f \<in> set files. old_entry fs (resolve fs (tempDir h)) (date_now h) f}"
    by simp
  from cleanupOldFiles_outcome [OF assms] show "cleanupOldFiles h fs =
             (without fs ((\<lambda>f. resolve fs (tempDir h) @ [f]) `
                  {f \<in> set files. old_entry fs (resolve fs (tempDir h)) (date_now h) f}),
              map (\<lambda>f. Log (''Cleaned up old temp file: '' @ f))
                (filter (old_entry fs (resolve fs (tempDir h)) (date_now h)) files))"
    unfolding del sw set by auto
qed

text \<open>
  A sweep of a directory that lists an old file, a fresh file, an old directory and another
  old file.
\<close>

lemma sweep_fs_wf: "wf_fs sweep_fs"
  by code_simp

lemma host0_absolute: "posix_isAbsolute (tempDir host0)"
  by code_simp

lemma sweep_fs_listing:
  "readdirSync sweep_fs (tempDir host0) = Inr [''a.bin'', ''b.bin'', ''cache'', ''stale.bin'']"
  by code_simp

lemma sweep_fs_run:
  "cleanupOldFiles host0 sweep_fs =
     (sweep_fs\<lparr>nodes :=
        [([''tmp''], dir_node),
         ([''tmp'', ''chrome-mcp-uploads''], dir_node),
         ([''tmp'', ''chrome-mcp-uploads'', ''b.bin''], file_node 9999000 [2]),
         ([''tmp'', ''chrome-mcp-uploads'', ''cache''], dir_node),
         ([''tmp'', ''chrome-mcp-uploads'', ''stale.bin''], file_node 0 [3])]\<rparr>,
      [Log ''Cleaned up old temp file: a.bin'',
       ConsoleError ''Error cleaning up old files:''
         (Error (''EISDIR: illegal operation on a directory, unlink ''
            @ quoted ''/tmp/chrome-mcp-uploads/cache''))])"
  by code_simp

text \<open>
  Claim C2 as stated fails: the directory \<open>cache\<close> is older than one hour, \<open>unlink\<close> throws
  on it, and the file \<open>stale.bin\<close> listed after it, also older than one hour, is still there
  after the sweep.
\<close>

theorem sweep_leaves_old_file_after_error:
  "readdirSync sweep_fs (tempDir host0) = Inr [''a.bin'', ''b.bin'', ''cache'', ''stale.bin''] \<and>
   lookup sweep_fs ''/tmp/chrome-mcp-uploads/stale.bin'' = Some (file_node 0 [3]) \<and>
   date_now host0 - mtimeMs (file_node 0 [3]) > oneHour \<and>
   existsSync (fst (cleanupOldFiles host0 sweep_fs)) ''/tmp/chrome-mcp-uploads/stale.bin''"
  by code_simp

lemma sweep_fs_swept:
  "resolve sweep_fs (tempDir host0) = [''tmp'', ''chrome-mcp-uploads'']"
  "swept sweep_fs [''tmp'', ''chrome-mcp-uploads''] (date_now host0)
     [''a.bin'', ''b.bin'', ''cache'', ''stale.bin''] = [''a.bin'', ''b.bin'']"
  "deleted sweep_fs [''tmp'', ''chrome-mcp-uploads''] (date_now host0)
     [''a.bin'', ''b.bin'', ''cache'', ''stale.bin''] = [''a.bin'']"
  by code_simp+

theorem sweep_stops_at_first_error_witness:
  "wf_fs sweep_fs \<and> posix_isAbsolute (tempDir host0) \<and>
   readdirSync sweep_fs (tempDir host0) = Inr [''a.bin'', ''b.bin'', ''cache'', ''stale.bin''] \<and>
   swept sweep_fs [''tmp'', ''chrome-mcp-uploads''] (date_now host0)
     [''a.bin'', ''b.bin'', ''cache'', ''stale.bin''] = [''a.bin'', ''b.bin''] \<and>
   (\<exists>errs. cleanupOldFiles host0 sweep_fs =
      (without sweep_fs {[''tmp'', ''chrome-mcp-uploads'', ''a.bin'']},
       [Log ''Cleaned up old temp file: a.bin''] @ errs) \<and>
      length errs \<le> 1 \<and> list_all is_ConsoleError errs \<and> errs \<noteq> [])"
proof -
  note run = sweep_stops_at_first_error [OF sweep_fs_wf host0_absolute sweep_fs_listing]
  from run have "\<exists>errs. cleanupOldFiles host0 sweep_fs =
      (without sweep_fs {[''tmp'', ''chrome-mcp-uploads'', ''a.bin'']},
       [Log ''Cleaned up old temp file: a.bin''] @ errs) \<and>
      length errs \<le> 1 \<and> list_all is_ConsoleError errs \<and> errs \<noteq> []"
    unfolding sweep_fs_swept by simp
  then show ?thesis
    using sweep_fs_wf host0_absolute sweep_fs_listing sweep_fs_swept(2)
    by blast
qed

end
